theory Spec2Isabelle
  imports Main "HOL-Library.Sublist"
begin

section \<open>Python strings\<close>

text \<open>
  Text is modelled as \<open>string\<close>, one \<open>char\<close> per character: a \<open>char\<close> is a code point
  below 256, so a text is a Python \<open>str\<close> whose code points are in that range. The
  patterns \<open>[a-zA-Z]\<close> of the scripts are ASCII by their own wording; white space is what
  \<open>str.isspace\<close> accepts in that range, the two characters beyond ASCII included.
  \<open>s in t\<close> on strings is \<^const>\<open>sublist\<close>, \<open>t.startswith(s)\<close> is \<^const>\<open>prefix\<close>,
  \<open>''.join(xs)\<close> is \<^const>\<open>concat\<close>.
\<close>

abbreviation nl :: char where "nl \<equiv> CHR 0x0A"
abbreviation bslash :: char where "bslash \<equiv> CHR 0x5C"
abbreviation btick :: char where "btick \<equiv> CHR 0x60"
abbreviation dquote :: char where "dquote \<equiv> CHR 0x22"

definition is_alpha :: "char \<Rightarrow> bool" where
  "is_alpha c = (let n = (of_char c :: nat) in (65 \<le> n \<and> n \<le> 90) \<or> (97 \<le> n \<and> n \<le> 122))"

text \<open>
  White space as \<open>str.strip\<close>, \<open>str.isspace\<close> and the pattern \<open>\s\<close> see it: the code
  points 9 to 13, 28 to 32, 133 (next line) and 160 (no-break space).
\<close>

definition is_space :: "char \<Rightarrow> bool" where
  "is_space c =
     (let n = (of_char c :: nat)
      in (9 \<le> n \<and> n \<le> 13) \<or> (28 \<le> n \<and> n \<le> 32) \<or> n = 133 \<or> n = 160)"

definition strip :: "string \<Rightarrow> string" where
  "strip s = rev (dropWhile is_space (rev (dropWhile is_space s)))"

text \<open>\<open>s.split('\n')\<close>: never empty; the second case of \<open>case\<close> is unreachable.\<close>

fun split_nl :: "string \<Rightarrow> string list" where
  "split_nl [] = [[]]"
| "split_nl (c # cs) =
     (if c = nl then [] # split_nl cs
      else (case split_nl cs of l # ls \<Rightarrow> (c # l) # ls | [] \<Rightarrow> [[c]]))"

text \<open>\<open>'\n'.join(xs)\<close>\<close>

fun join_nl :: "string list \<Rightarrow> string" where
  "join_nl [] = []"
| "join_nl [x] = x"
| "join_nl (x # y # ys) = x @ nl # join_nl (y # ys)"

text \<open>\<open>s.replace(old, new)\<close> for a non-empty \<open>old\<close>: leftmost occurrences, not overlapping.\<close>

fun str_replace :: "string \<Rightarrow> string \<Rightarrow> string \<Rightarrow> string" where
  "str_replace old new [] = []"
| "str_replace old new (c # cs) =
     (if prefix old (c # cs) then new @ str_replace old new (drop (length old - 1) cs)
      else c # str_replace old new cs)"

text \<open>
  \<open>s.title()\<close> consults the Unicode character database, which is not part of the
  repository, and its result can leave the range of \<open>char\<close>: it is the parameter
  \<open>title\<close> of the functions that call it. \<open>title_ascii\<close> is what it computes on ASCII
  text (a letter is upper-cased when the character before it is not a letter, lower-cased
  when it is) and serves to evaluate examples whose text is ASCII.
\<close>

definition is_upper :: "char \<Rightarrow> bool" where
  "is_upper c = (let n = (of_char c :: nat) in 65 \<le> n \<and> n \<le> 90)"

definition is_lower :: "char \<Rightarrow> bool" where
  "is_lower c = (let n = (of_char c :: nat) in 97 \<le> n \<and> n \<le> 122)"

definition to_upper :: "char \<Rightarrow> char" where
  "to_upper c = (if is_lower c then char_of (of_char c - (32::nat)) else c)"

definition to_lower :: "char \<Rightarrow> char" where
  "to_lower c = (if is_upper c then char_of (of_char c + (32::nat)) else c)"

fun title_from :: "bool \<Rightarrow> string \<Rightarrow> string" where
  "title_from prev_cased [] = []"
| "title_from prev_cased (c # cs) =
     (if is_lower c then (if prev_cased then c else to_upper c) # title_from True cs
      else if is_upper c then (if prev_cased then to_lower c else c) # title_from True cs
      else c # title_from False cs)"

definition title_ascii :: "string \<Rightarrow> string" where
  "title_ascii s = title_from False s"

subsection \<open>\<open>re.sub\<close>\<close>

text \<open>
  A pattern is modelled by its matcher: given the character before the current position
  (for a look-behind) and the text from the current position on, it returns the
  replacement text and the number of characters the match consumes after the first one,
  or \<open>None\<close> when the pattern does not match there. No pattern of the scripts matches the
  empty string. \<open>re.sub\<close> scans from the left, replaces a match and goes on behind it.
\<close>

type_synonym matcher = "char option \<Rightarrow> string \<Rightarrow> (string \<times> nat) option"

fun re_sub :: "matcher \<Rightarrow> char option \<Rightarrow> string \<Rightarrow> string" where
  "re_sub m prev [] = []"
| "re_sub m prev (c # cs) =
     (case m prev (c # cs) of
        None \<Rightarrow> c # re_sub m (Some c) cs
      | Some (r, n) \<Rightarrow> r @ re_sub m (Some (last (c # take n cs))) (drop n cs))"

section \<open>The notebook data model (parsed JSON)\<close>

text \<open>
  An output is a JSON object read with \<open>output.get(key, default)\<close>; a field of the record
  holds the value that \<open>get\<close> returns, the default when the key is absent
  (\<open>None\<close> for \<open>output_type\<close>, the empty list for \<open>text\<close> and \<open>traceback\<close>, the empty
  mapping for \<open>data\<close>). A MIME payload is a list of text fragments.
\<close>

record cell_output =
  output_type :: "string option"
  out_text :: "string list"
  out_data :: "string \<rightharpoonup> string list"
  traceback :: "string list"

text \<open>
  A cell, read with \<open>cell.get\<close> in the same way. A notebook is read both with
  \<open>notebook.get('cells', [])\<close> and with \<open>notebook['cells']\<close>, which raises \<open>KeyError\<close> when the
  key is absent, so the field keeps the option.
\<close>

record cell =
  cell_type :: "string option"
  source :: "string list"
  outputs :: "cell_output list"

record notebook =
  metadata :: "string \<rightharpoonup> string"
  cells :: "cell list option"

definition get_cells :: "notebook \<Rightarrow> cell list" where
  "get_cells nb = (case cells nb of None \<Rightarrow> [] | Some cs \<Rightarrow> cs)"

subsection \<open>\<open>jupyter_to_docusaurus.py\<close>: \<open>_fix_mdx_syntax\<close>\<close>

text \<open>\<open>https?://\<close> at the start of the text: the length of the scheme.\<close>

definition http_scheme :: "string \<Rightarrow> nat option" where
  "http_scheme s =
     (if prefix ''https://'' s then Some 8 else if prefix ''http://'' s then Some 7 else None)"

text \<open>\<open><(https?://[^>\s]+)>\<close>, replaced by \<open>[\1](\1)\<close>.\<close>

definition m_angle_url :: matcher where
  "m_angle_url prev s =
     (case s of [] \<Rightarrow> None
      | c # cs \<Rightarrow>
          if c \<noteq> CHR ''<'' then None
          else (case http_scheme cs of None \<Rightarrow> None
                | Some k \<Rightarrow>
                    let run = takeWhile (\<lambda>x. x \<noteq> CHR ''>'' \<and> \<not> is_space x) (drop k cs);
                        url = take (k + length run) cs
                    in if run \<noteq> [] \<and> prefix ''>'' (drop (k + length run) cs)
                       then Some (''['' @ url @ '']('' @ url @ '')'', k + length run + 1)
                       else None))"

text \<open>\<open><(?![a-zA-Z/!])\<close>, replaced by \<open>&lt;\<close>.\<close>

definition m_lt :: matcher where
  "m_lt prev s =
     (case s of [] \<Rightarrow> None
      | c # cs \<Rightarrow>
          if c = CHR ''<'' \<and> \<not> (case cs of [] \<Rightarrow> False
                                  | d # _ \<Rightarrow> is_alpha d \<or> d = CHR ''/'' \<or> d = CHR ''!'')
          then Some (''&lt;'', 0) else None)"

text \<open>\<open>(?<![a-zA-Z])>\<close>, replaced by \<open>&gt;\<close>: only the character before is examined.\<close>

definition m_gt :: matcher where
  "m_gt prev s =
     (case s of [] \<Rightarrow> None
      | c # cs \<Rightarrow>
          if c = CHR ''>'' \<and> \<not> (case prev of None \<Rightarrow> False | Some b \<Rightarrow> is_alpha b)
          then Some (''&gt;'', 0) else None)"

text \<open>\<open>(?<!\[)(?<!\()https?://[^\s<>"\[\]]+\<close>, replaced by \<open>[url](url)\<close>.\<close>

definition url_char :: "char \<Rightarrow> bool" where
  "url_char x = (\<not> is_space x \<and> x \<notin> {CHR ''<'', CHR ''>'', dquote, CHR ''['', CHR '']''})"

definition m_bare_url :: "(string \<Rightarrow> string) \<Rightarrow> matcher" where
  "m_bare_url repl prev s =
     (if prev \<in> {Some CHR ''['', Some CHR ''(''} then None
      else (case http_scheme s of None \<Rightarrow> None
            | Some k \<Rightarrow>
                let run = takeWhile url_char (drop k s)
                in if run \<noteq> [] then Some (repl (take (k + length run) s), k + length run - 1)
                   else None))"

definition fix_mdx_syntax :: "string \<Rightarrow> string" where
  "fix_mdx_syntax content =
     (let content = re_sub m_angle_url None content;
          content = re_sub m_lt None content;
          content = re_sub m_gt None content;
          content = re_sub (m_bare_url (\<lambda>u. ''['' @ u @ '']('' @ u @ '')'')) None content
      in content)"

subsection \<open>\<open>jupyter_to_docusaurus.py\<close>: \<open>_fix_html_tags\<close> and \<open>_clean_markdown\<close>\<close>

text \<open>
  \<open><(ul|ol|li|div|span|p)(?![^>]*/>)(?![^>]*</\1>)\<close>, replaced by the empty string. Only
  \<open><tag\<close> is consumed. No alternative is a prefix of another, so at most one fits. The
  first look-ahead holds when the characters up to the next \<open>>\<close> end in \<open>/\<close>, the second
  when they end in \<open></tag\<close>.
\<close>

definition followed_by_gt :: "string \<Rightarrow> bool" where
  "followed_by_gt s = (dropWhile (\<lambda>x. x \<noteq> CHR ''>'') s \<noteq> [])"

definition m_unclosed :: matcher where
  "m_unclosed prev s =
     (case s of [] \<Rightarrow> None
      | c # cs \<Rightarrow>
          if c \<noteq> CHR ''<'' then None
          else (case find (\<lambda>t. prefix t cs) [''ul'', ''ol'', ''li'', ''div'', ''span'', ''p''] of
                  None \<Rightarrow> None
                | Some t \<Rightarrow>
                    let after = drop (length t) cs;
                        run = takeWhile (\<lambda>x. x \<noteq> CHR ''>'') after
                    in if followed_by_gt after \<and> (suffix ''/'' run \<or> suffix (''</'' @ t) run)
                       then None else Some ([], length t)))"

text \<open>\<open><(br|hr|img)([^>]*)(?<!/)>\<close>, replaced by \<open><\1\2 />\<close>.\<close>

definition m_self_closing :: matcher where
  "m_self_closing prev s =
     (case s of [] \<Rightarrow> None
      | c # cs \<Rightarrow>
          if c \<noteq> CHR ''<'' then None
          else (case find (\<lambda>t. prefix t cs) [''br'', ''hr'', ''img''] of
                  None \<Rightarrow> None
                | Some t \<Rightarrow>
                    let after = drop (length t) cs;
                        run = takeWhile (\<lambda>x. x \<noteq> CHR ''>'') after
                    in if followed_by_gt after \<and> \<not> suffix ''/'' run
                       then Some (''<'' @ t @ run @ '' />'', length t + length run + 1)
                       else None))"

text \<open>
  \<open><([^>]+)\s+ATTR="[^"]*"([^>]*)>\<close>, replaced by \<open><\1\2>\<close>, for \<open>ATTR\<close> = \<open>style\<close> (and
  \<open>class\<close> in \<open>clean_mdx.py\<close>). Group 1 is greedy: the engine tries its longest extent
  first and gives characters back one at a time; \<open>attr_at\<close> is what must follow group 1 when
  it has \<open>k\<close> characters.
\<close>

definition attr_at :: "string \<Rightarrow> string \<Rightarrow> nat \<Rightarrow> (string \<times> nat) option" where
  "attr_at attr cs k =
     (let ws = takeWhile is_space (drop k cs);
          j = k + length ws;
          q = takeWhile (\<lambda>x. x \<noteq> dquote) (drop (j + length attr + 2) cs);
          e = j + length attr + 2 + length q;
          g2 = takeWhile (\<lambda>x. x \<noteq> CHR ''>'') (drop (e + 1) cs)
      in if ws \<noteq> [] \<and> prefix (attr @ [CHR ''='', dquote]) (drop j cs)
            \<and> prefix [dquote] (drop e cs) \<and> followed_by_gt (drop (e + 1) cs)
         then Some (g2, e + 1 + length g2 + 1) else None)"

definition m_attr :: "string \<Rightarrow> matcher" where
  "m_attr attr prev s =
     (case s of [] \<Rightarrow> None
      | c # cs \<Rightarrow>
          if c \<noteq> CHR ''<'' then None
          else (let r = takeWhile (\<lambda>x. x \<noteq> CHR ''>'') cs
                in case find (\<lambda>k. attr_at attr cs k \<noteq> None) (rev [1..<Suc (length r)]) of
                     None \<Rightarrow> None
                   | Some k \<Rightarrow>
                       (case attr_at attr cs k of None \<Rightarrow> None
                        | Some (g2, n) \<Rightarrow> Some (''<'' @ take k cs @ g2 @ ''>'', n))))"

definition fix_html_tags_nb :: "string \<Rightarrow> string" where
  "fix_html_tags_nb content =
     (let content = re_sub m_unclosed None content;
          content = re_sub m_self_closing None content;
          content = re_sub (m_attr ''style'') None content
      in content)"

text \<open>\<open><img src="([^"]+)"([^>]*?)>\<close>, replaced by \<open>![Image](\1)\<close>.\<close>

definition m_img_src :: matcher where
  "m_img_src prev s =
     (if prefix (''<img src='' @ [dquote]) s
      then (let src = takeWhile (\<lambda>x. x \<noteq> dquote) (drop 10 s);
                after = drop (10 + length src + 1) s;
                g2 = takeWhile (\<lambda>x. x \<noteq> CHR ''>'') after
            in if src \<noteq> [] \<and> prefix [dquote] (drop (10 + length src) s) \<and> followed_by_gt after
               then Some (''![Image]('' @ src @ '')'', 10 + length src + 1 + length g2)
               else None)
      else None)"

definition clean_markdown :: "string \<Rightarrow> string" where
  "clean_markdown markdown =
     (let markdown = fix_html_tags_nb markdown;
          markdown = re_sub m_img_src None markdown;
          markdown = fix_mdx_syntax markdown
      in markdown)"

subsection \<open>\<open>jupyter_to_docusaurus.py\<close>: \<open>_transmute_outputs\<close>\<close>

definition image_note :: string where
  "image_note =
     '':::note Output\<newline>Image output (PNG data) - please save and reference manually\<newline>:::\<newline>''"

text \<open>The three independent \<open>if\<close> statements of the \<open>execute_result\<close>/\<open>display_data\<close> branch.\<close>

definition transmute_data :: "(string \<rightharpoonup> string list) \<Rightarrow> string" where
  "transmute_data d =
     (case d ''text/plain'' of None \<Rightarrow> [] | Some t \<Rightarrow> ''```\<newline>'' @ concat t @ ''\<newline>```\<newline>'')
     @ (case d ''image/png'' of None \<Rightarrow> [] | Some _ \<Rightarrow> image_note)
     @ (case d ''text/html'' of None \<Rightarrow> [] | Some h \<Rightarrow> ''```html\<newline>'' @ concat h @ ''\<newline>```\<newline>'')"

text \<open>One iteration of the loop over the outputs: what is appended to \<open>content\<close>.\<close>

definition transmute_output :: "cell_output \<Rightarrow> string" where
  "transmute_output out =
     (if output_type out = Some ''stream''
      then ''```bash\<newline>'' @ concat (out_text out) @ ''\<newline>```\<newline>''
      else if output_type out \<in> {Some ''execute_result'', Some ''display_data''}
      then transmute_data (out_data out)
      else if output_type out = Some ''error''
      then ''```python\<newline># Error:\<newline>'' @ join_nl (traceback out) @ ''\<newline>```\<newline>''
      else [])"

definition transmute_outputs :: "cell_output list \<Rightarrow> string" where
  "transmute_outputs outs = foldl (\<lambda>content out. content @ transmute_output out) [] outs"

subsection \<open>\<open>jupyter_to_docusaurus.py\<close>: cells\<close>

definition transmute_markdown_cell :: "cell \<Rightarrow> string" where
  "transmute_markdown_cell c = clean_markdown (concat (source c)) @ ''\<newline>''"

definition transmute_code_cell :: "cell \<Rightarrow> string" where
  "transmute_code_cell c =
     (let content = ''```python\<newline>'' @ concat (source c) @ ''\<newline>```\<newline>''
      in if outputs c \<noteq> [] then content @ transmute_outputs (outputs c) else content)"

definition transmute_raw_cell :: "cell \<Rightarrow> string" where
  "transmute_raw_cell c = ''```\<newline>'' @ concat (source c) @ ''\<newline>```\<newline>''"

text \<open>One iteration of the loop of \<open>_transmute_cells\<close>: what is appended to \<open>content\<close>.\<close>

definition transmute_cell :: "cell \<Rightarrow> string" where
  "transmute_cell c =
     (if cell_type c = Some ''markdown'' then transmute_markdown_cell c
      else if cell_type c = Some ''code'' then transmute_code_cell c
      else if cell_type c = Some ''raw'' then transmute_raw_cell c
      else [])
     @ ''\<newline>''"

text \<open>
  The converter object has one attribute, \<open>cell_counter\<close>, set to 0 by \<open>__init__\<close>; what
  the methods print goes to the standard output. Both are the state that the methods
  thread: \<open>_transmute_cells\<close> returns the content and leaves the state as it found it.
\<close>

datatype message = Transmuting string | Transmutation_complete string

record alchemist =
  cell_counter :: int
  stdout :: "message list"

definition init :: alchemist where
  "init = \<lparr>cell_counter = 0, stdout = []\<rparr>"

definition transmute_cells :: "alchemist \<Rightarrow> cell list \<Rightarrow> string \<times> alchemist" where
  "transmute_cells self cs = (foldl (\<lambda>content c. content @ transmute_cell c) [] cs, self)"

subsection \<open>\<open>jupyter_to_docusaurus.py\<close>: title, description, front matter\<close>

text \<open>
  \<open>re.search(r'^#\s+(.+)', source, re.MULTILINE)\<close>, group 1. \<open>h1_at\<close> is the match
  anchored at the start of a line: \<open>\s+\<close> takes the whole run of white space; when
  something other than white space follows, \<open>(.+)\<close> is the rest of that line; when the text
  ends there, \<open>\s+\<close> gives characters back until \<open>(.+)\<close> can start on one that is not a
  newline.
\<close>

definition h1_at :: "string \<Rightarrow> string option" where
  "h1_at s =
     (case s of [] \<Rightarrow> None
      | c # u \<Rightarrow>
          if c \<noteq> CHR ''#'' then None
          else (let ws = takeWhile is_space u; v = dropWhile is_space u
                in if ws = [] then None
                   else if v \<noteq> [] then Some (takeWhile (\<lambda>x. x \<noteq> nl) v)
                   else (case find (\<lambda>i. ws ! i \<noteq> nl) (rev [1..<length ws]) of
                           None \<Rightarrow> None
                         | Some i \<Rightarrow> Some (takeWhile (\<lambda>x. x \<noteq> nl) (drop i ws)))))"

fun h1_search_from :: "bool \<Rightarrow> string \<Rightarrow> string option" where
  "h1_search_from line_start [] = None"
| "h1_search_from line_start (c # cs) =
     (case (if line_start then h1_at (c # cs) else None) of
        Some g \<Rightarrow> Some g
      | None \<Rightarrow> h1_search_from (c = nl) cs)"

definition h1_search :: "string \<Rightarrow> string option" where
  "h1_search s = h1_search_from True s"

text \<open>
  \<open>_extract_title\<close>: the loop leaves at the first Markdown cell (\<open>return\<close> or \<open>break\<close>).
  \<open>Path(path).stem\<close> is computed by the library and is the parameter \<open>stem\<close>;
  \<open>title\<close> is \<open>str.title\<close>.
\<close>

definition filename_title :: "(string \<Rightarrow> string) \<Rightarrow> string \<Rightarrow> string" where
  "filename_title title stem = title (str_replace ''-'' '' '' (str_replace ''_'' '' '' stem))"

fun extract_title_loop :: "cell list \<Rightarrow> string option" where
  "extract_title_loop [] = None"
| "extract_title_loop (c # cs) =
     (if cell_type c = Some ''markdown''
      then (case h1_search (concat (source c)) of Some g \<Rightarrow> Some (strip g) | None \<Rightarrow> None)
      else extract_title_loop cs)"

definition extract_title :: "(string \<Rightarrow> string) \<Rightarrow> notebook \<Rightarrow> string \<Rightarrow> string" where
  "extract_title title nb stem =
     (case extract_title_loop (get_cells nb) of
        Some t \<Rightarrow> t
      | None \<Rightarrow> filename_title title stem)"

text \<open>\<open>_extract_description\<close>\<close>

definition stripped_lines :: "string \<Rightarrow> string list" where
  "stripped_lines src = map strip (filter (\<lambda>line. strip line \<noteq> []) (split_nl src))"

fun extract_description_loop :: "cell list \<Rightarrow> string option" where
  "extract_description_loop [] = None"
| "extract_description_loop (c # cs) =
     (if cell_type c = Some ''markdown''
      then (case find (\<lambda>line. \<not> prefix ''#'' line \<and> length line > 20)
                   (stripped_lines (concat (source c))) of
              Some line \<Rightarrow> Some line
            | None \<Rightarrow> extract_description_loop cs)
      else extract_description_loop cs)"

definition extract_description :: "notebook \<Rightarrow> string" where
  "extract_description nb =
     (case metadata nb ''description'' of
        Some d \<Rightarrow> d
      | None \<Rightarrow>
          (case extract_description_loop (get_cells nb) of
             Some line \<Rightarrow> line
           | None \<Rightarrow> ''Jupyter notebook converted to documentation''))"

text \<open>
  \<open>_clean_yaml_string\<close>. \<open>yaml_cleaned\<close> is the text after the substitutions, before the
  length test: tags \<open><[^>]+>\<close> removed, \<open>"\<close> escaped, newline and carriage return made
  spaces, each run of white space made one space.
\<close>

definition m_tag :: matcher where
  "m_tag prev s =
     (case s of [] \<Rightarrow> None
      | c # cs \<Rightarrow>
          if c \<noteq> CHR ''<'' then None
          else (let run = takeWhile (\<lambda>x. x \<noteq> CHR ''>'') cs
                in if run \<noteq> [] \<and> followed_by_gt cs then Some ([], length run + 1) else None))"

definition m_spaces :: matcher where
  "m_spaces prev s =
     (let run = takeWhile is_space s
      in if run \<noteq> [] then Some ('' '', length run - 1) else None)"

definition yaml_cleaned :: "string \<Rightarrow> string" where
  "yaml_cleaned text =
     (let text = re_sub m_tag None text;
          text = str_replace [dquote] [bslash, dquote] text;
          text = str_replace [nl] '' '' text;
          text = str_replace [CHR 0x0D] '' '' text;
          text = re_sub m_spaces None text
      in text)"

definition clean_yaml_string :: "string \<Rightarrow> string" where
  "clean_yaml_string text =
     (if text = [] then []
      else (let text = yaml_cleaned text;
                text = (if length text > 150 then take 147 text @ ''...'' else text)
            in strip text))"

definition create_frontmatter :: "string \<Rightarrow> notebook \<Rightarrow> string" where
  "create_frontmatter ttl nb =
     (let description = extract_description nb;
          ttl = clean_yaml_string ttl;
          description = clean_yaml_string description
      in ''---\<newline>title: '' @ [dquote] @ ttl @ [dquote] @ ''\<newline>description: '' @ [dquote]
         @ description @ [dquote] @ ''\<newline>---\<newline>\<newline>'')"

text \<open>
  \<open>transmute_notebook\<close>, from the parsed notebook to the text it writes: \<open>path\<close> is the
  notebook's path, \<open>stem\<close> its stem, \<open>output_path\<close> what \<open>_generate_output_path\<close> returns,
  \<open>title\<close> is \<open>str.title\<close>.
  The second message is printed only when \<open>notebook['cells']\<close> has not raised.
\<close>

datatype error = KeyError string

definition transmute_notebook ::
    "(string \<Rightarrow> string) \<Rightarrow> alchemist \<Rightarrow> notebook \<Rightarrow> string \<Rightarrow> string \<Rightarrow> string
      \<Rightarrow> (error + string) \<times> alchemist" where
  "transmute_notebook title self nb path stem output_path =
     (let self = self\<lparr>stdout := stdout self @ [Transmuting path]\<rparr>;
          ttl = extract_title title nb stem;
          mdx_content = create_frontmatter ttl nb
      in case cells nb of
           None \<Rightarrow> (Inl (KeyError ''cells''), self)
         | Some cs \<Rightarrow>
             (let (body, self) = transmute_cells self cs;
                  mdx_content = mdx_content @ body
              in (Inr mdx_content,
                  self\<lparr>stdout := stdout self @ [Transmutation_complete output_path]\<rparr>)))"

subsection \<open>\<open>add_frontmatter.py\<close>: the description of \<open>convert_md_to_mdx\<close>\<close>

text \<open>
  The description computed from \<open>content\<close> (the text after the first heading has been
  taken out): the first stripped line that is not empty, is not a heading and has more
  than 30 characters, with \<open>*\<close>, \<open>_\<close> and the backquote removed (\<open>re.sub(r'[*_`]', '', ...)\<close>),
  truncated; the double quotes are escaped after the loop.
\<close>

definition md_truncate :: "string \<Rightarrow> string" where
  "md_truncate clean_line =
     (let description = filter (\<lambda>x. x \<notin> {CHR ''*'', CHR ''_'', btick}) clean_line
      in if length description > 150 then take 147 description @ ''...'' else description)"

definition md_description :: "string \<Rightarrow> string" where
  "md_description content =
     (let description =
        (case find (\<lambda>clean_line. clean_line \<noteq> [] \<and> \<not> prefix ''#'' clean_line
                       \<and> length clean_line > 30)
                (map strip (split_nl content)) of
           None \<Rightarrow> ''Jupyter notebook example for Pixeltable''
         | Some clean_line \<Rightarrow> md_truncate clean_line)
      in str_replace [dquote] [bslash, dquote] description)"

subsection \<open>\<open>clean_mdx.py\<close>\<close>

text \<open>
  \<open>fix_html_tags\<close>. The patterns \<open><TAG[^>]*>(?![^<]*</TAG>)\<close>, replaced by the empty
  string: the tag up to its \<open>>\<close>, unless \<open></TAG>\<close> stands at the next \<open><\<close>.
\<close>

definition m_open_tag :: "string \<Rightarrow> matcher" where
  "m_open_tag t prev s =
     (if prefix (''<'' @ t) s
      then (let after = drop (Suc (length t)) s;
                run = takeWhile (\<lambda>x. x \<noteq> CHR ''>'') after;
                rest = drop (Suc (length run)) after
            in if followed_by_gt after
                  \<and> \<not> prefix (''</'' @ t @ ''>'') (dropWhile (\<lambda>x. x \<noteq> CHR ''<'') rest)
               then Some ([], length t + length run + 1) else None)
      else None)"

text \<open>The index of the first occurrence of a pattern (\<open>str.find\<close>).\<close>

fun find_sub :: "string \<Rightarrow> string \<Rightarrow> nat option" where
  "find_sub pat [] = (if pat = [] then Some 0 else None)"
| "find_sub pat (c # cs) =
     (if prefix pat (c # cs) then Some 0 else map_option Suc (find_sub pat cs))"

text \<open>\<open><table[^>]*>.*?</table>\<close> with \<open>re.DOTALL\<close>, replaced by a note.\<close>

definition m_table :: matcher where
  "m_table prev s =
     (if prefix ''<table'' s
      then (let after = drop 6 s;
                run = takeWhile (\<lambda>x. x \<noteq> CHR ''>'') after;
                rest = drop (Suc (length run)) after
            in if followed_by_gt after
               then (case find_sub ''</table>'' rest of
                       None \<Rightarrow> None
                     | Some j \<Rightarrow>
                         Some ('':::note\<newline>Table output (view in original notebook)\<newline>:::'',
                               5 + length run + 1 + j + 8))
               else None)
      else None)"

definition fix_html_tags :: "string \<Rightarrow> string" where
  "fix_html_tags content =
     (let content = foldl (\<lambda>content t. re_sub (m_open_tag t) None content) content
                      [''ul'', ''ol'', ''li'', ''div'', ''span'', ''p''];
          content = re_sub m_table None content;
          content = re_sub (m_attr ''style'') None content;
          content = re_sub (m_attr ''class'') None content;
          content = re_sub m_self_closing None content
      in content)"

text \<open>
  \<open>escape_braces_outside_code\<close>. The inner \<open>while\<close> loop over the characters of a line
  returns the new line and the value of \<open>in_inline_code\<close>, which is not reset between
  lines; the outer loop carries both flags.
\<close>

fun escape_chars :: "bool \<Rightarrow> string \<Rightarrow> string \<times> bool" where
  "escape_chars in_inline_code [] = ([], in_inline_code)"
| "escape_chars in_inline_code (c # cs) =
     (if c = btick
      then (let (new_line, q) = escape_chars (\<not> in_inline_code) cs in (c # new_line, q))
      else if \<not> in_inline_code \<and> c = CHR ''{''
      then (let (new_line, q) = escape_chars in_inline_code cs
            in (bslash # CHR ''{'' # new_line, q))
      else if \<not> in_inline_code \<and> c = CHR ''}''
      then (let (new_line, q) = escape_chars in_inline_code cs
            in (bslash # CHR ''}'' # new_line, q))
      else (let (new_line, q) = escape_chars in_inline_code cs in (c # new_line, q)))"

definition is_fence :: "string \<Rightarrow> bool" where
  "is_fence line = prefix ''```'' (strip line)"

fun escape_lines :: "bool \<Rightarrow> bool \<Rightarrow> string list \<Rightarrow> string list" where
  "escape_lines in_code_block in_inline_code [] = []"
| "escape_lines in_code_block in_inline_code (line # lines) =
     (if is_fence line then line # escape_lines (\<not> in_code_block) in_inline_code lines
      else if in_code_block then line # escape_lines in_code_block in_inline_code lines
      else (let (new_line, q) = escape_chars in_inline_code line
            in new_line # escape_lines in_code_block q lines))"

definition escape_braces_outside_code :: "string \<Rightarrow> string" where
  "escape_braces_outside_code text = join_nl (escape_lines False False (split_nl text))"

definition clean_mdx_content :: "string \<Rightarrow> string" where
  "clean_mdx_content content =
     (let content = fix_html_tags content;
          content = escape_braces_outside_code content;
          cleaned_lines = map (\<lambda>line. if length line > 2000
                                      then ''<!-- Very long line truncated for documentation -->''
                                      else line) (split_nl content)
      in join_nl cleaned_lines)"

subsection \<open>\<open>fix_mdx.py\<close>: steps 2 and 3 of \<open>fix_mdx_file\<close>\<close>

text \<open>
  \<open>(?<!`){(?!{)\<close> replaced by \<open>\{\<close>, then \<open>(?<!`)(?<!{)}(?!})\<close> replaced by \<open>\}\<close>; then
  \<open><(?![a-zA-Z/!])\<close> replaced by \<open>&lt;\<close> and \<open>(?<![a-zA-Z])>(?![a-zA-Z])\<close> by \<open>&gt;\<close>.
\<close>

definition m_lbrace :: matcher where
  "m_lbrace prev s =
     (case s of [] \<Rightarrow> None
      | c # cs \<Rightarrow>
          if c = CHR ''{'' \<and> prev \<noteq> Some btick \<and> \<not> prefix ''{'' cs
          then Some ([bslash, CHR ''{''], 0) else None)"

definition m_rbrace :: matcher where
  "m_rbrace prev s =
     (case s of [] \<Rightarrow> None
      | c # cs \<Rightarrow>
          if c = CHR ''}'' \<and> prev \<noteq> Some btick \<and> prev \<noteq> Some CHR ''{'' \<and> \<not> prefix ''}'' cs
          then Some ([bslash, CHR ''}''], 0) else None)"

definition fix_mdx_braces :: "string \<Rightarrow> string" where
  "fix_mdx_braces content = re_sub m_rbrace None (re_sub m_lbrace None content)"

definition m_gt_both :: matcher where
  "m_gt_both prev s =
     (case s of [] \<Rightarrow> None
      | c # cs \<Rightarrow>
          if c = CHR ''>'' \<and> \<not> (case prev of None \<Rightarrow> False | Some b \<Rightarrow> is_alpha b)
             \<and> \<not> (case cs of [] \<Rightarrow> False | d # _ \<Rightarrow> is_alpha d)
          then Some (''&gt;'', 0) else None)"

definition fix_mdx_angles :: "string \<Rightarrow> string" where
  "fix_mdx_angles content = re_sub m_gt_both None (re_sub m_lt None content)"

subsection \<open>\<open>fix_mdx_issues.py\<close>\<close>

text \<open>\<open>str(n)\<close> for a natural number.\<close>

fun show_nat :: "nat \<Rightarrow> string" where
  "show_nat n =
     (if n < 10 then [char_of (48 + n)] else show_nat (n div 10) @ [char_of (48 + n mod 10)])"

declare show_nat.simps [simp del]

definition placeholder :: "nat \<Rightarrow> string" where
  "placeholder i = ''__CODE_BLOCK_'' @ show_nat i @ ''__''"

text \<open>
  \<open>re.sub(pattern, save_code_block, content)\<close>: each match is appended to \<open>code_blocks\<close>
  and replaced by the placeholder that carries its index. The matcher returns the number
  of characters of the match after the first one.
\<close>

fun re_sub_save :: "(string \<Rightarrow> nat option) \<Rightarrow> string list \<Rightarrow> string \<Rightarrow> string \<times> string list" where
  "re_sub_save m code_blocks [] = ([], code_blocks)"
| "re_sub_save m code_blocks (c # cs) =
     (case m (c # cs) of
        None \<Rightarrow> (let (out, bs) = re_sub_save m code_blocks cs in (c # out, bs))
      | Some n \<Rightarrow>
          (let (out, bs) = re_sub_save m (code_blocks @ [c # take n cs]) (drop n cs)
           in (placeholder (length code_blocks) @ out, bs)))"

text \<open>\<open>```[\s\S]*?```\<close>: from three backquotes to the next three.\<close>

definition m_fenced :: "string \<Rightarrow> nat option" where
  "m_fenced s =
     (if prefix ''```'' s
      then (case find_sub ''```'' (drop 3 s) of None \<Rightarrow> None | Some j \<Rightarrow> Some (j + 5))
      else None)"

text \<open>\<open>`[^`]+`\<close>: a backquote, one or more other characters (newlines too), a backquote.\<close>

definition m_inline :: "string \<Rightarrow> nat option" where
  "m_inline s =
     (case s of [] \<Rightarrow> None
      | c # cs \<Rightarrow>
          if c = btick
          then (let run = takeWhile (\<lambda>x. x \<noteq> btick) cs
                in if run \<noteq> [] \<and> drop (length run) cs \<noteq> [] then Some (length run + 1) else None)
          else None)"

definition escape_all_braces :: "string \<Rightarrow> string" where
  "escape_all_braces content =
     str_replace ''}'' [bslash, CHR ''}''] (str_replace ''{'' [bslash, CHR ''{''] content)"

text \<open>The loop \<open>for i, code_block in enumerate(code_blocks)\<close>, from index \<open>i\<close> on.\<close>

fun restore_from :: "nat \<Rightarrow> string list \<Rightarrow> string \<Rightarrow> string" where
  "restore_from i [] content = content"
| "restore_from i (code_block # rest) content =
     restore_from (Suc i) rest (str_replace (placeholder i) code_block content)"

text \<open>Step 1 of \<open>fix_mdx_issues\<close>: protect the code blocks, escape the braces, restore.\<close>

definition save_code_blocks :: "string \<Rightarrow> string \<times> string list" where
  "save_code_blocks content =
     (let (content, code_blocks) = re_sub_save m_fenced [] content
      in re_sub_save m_inline code_blocks content)"

definition protect_escape_restore :: "string \<Rightarrow> string" where
  "protect_escape_restore content =
     (let (content, code_blocks) = save_code_blocks content
      in restore_from 0 code_blocks (escape_all_braces content))"

text \<open>\<open>s.count(pat)\<close> for a non-empty pattern.\<close>

fun str_count :: "string \<Rightarrow> string \<Rightarrow> nat" where
  "str_count pat [] = 0"
| "str_count pat (c # cs) =
     (if prefix pat (c # cs) then Suc (str_count pat (drop (length pat - 1) cs))
      else str_count pat cs)"

text \<open>
  Step 2: \<open><img[^>]*/?>\<close>, where \<open>fix_img_tag\<close> replaces the last two characters of a tag
  that does not end in \<open> />\<close>. Step 3: \<open>&(?!amp;|lt;|gt;|quot;|#)\<close> replaced by \<open>&amp;\<close>.
\<close>

definition m_img :: matcher where
  "m_img prev s =
     (if prefix ''<img'' s \<and> followed_by_gt (drop 4 s)
      then (let n = 4 + length (takeWhile (\<lambda>x. x \<noteq> CHR ''>'') (drop 4 s));
                full_tag = take (Suc n) s
            in Some (if suffix '' />'' full_tag then full_tag
                     else take (length full_tag - 2) full_tag @ '' />'', n))
      else None)"

definition m_img_count :: "string \<Rightarrow> nat option" where
  "m_img_count s = map_option snd (m_img None s)"

definition m_amp :: matcher where
  "m_amp prev s =
     (case s of [] \<Rightarrow> None
      | c # cs \<Rightarrow>
          if c = CHR ''&'' \<and> \<not> (\<exists>e \<in> set [''amp;'', ''lt;'', ''gt;'', ''quot;'', ''#'']. prefix e cs)
          then Some (''&amp;'', 0) else None)"

datatype fix_applied = Escaped_brace_pairs nat | Fixed_img_tags nat

definition fix_mdx_issues_content :: "string \<Rightarrow> string \<times> fix_applied list \<times> bool" where
  "fix_mdx_issues_content original_content =
     (let (content, code_blocks) = save_code_blocks original_content;
          content = escape_all_braces content;
          new_braces = str_count [bslash, CHR ''{''] content + str_count [bslash, CHR ''}''] content;
          fixes_applied = (if new_braces > 0 then [Escaped_brace_pairs (new_braces div 2)] else []);
          content = restore_from 0 code_blocks content;
          new_content = re_sub m_img None content;
          fixes_applied = (if new_content \<noteq> content
                           then fixes_applied
                                @ [Fixed_img_tags (length (snd (re_sub_save m_img_count [] content)))]
                           else fixes_applied);
          content = new_content;
          content = re_sub m_amp None content
      in (content, fixes_applied, content \<noteq> original_content))"

subsection \<open>The batch drivers\<close>

text \<open>
  The files are a mapping from paths to contents; a file whose bytes are not UTF-8 cannot
  be decoded. \<open>open(path, 'r', encoding='utf-8')\<close> followed by \<open>read()\<close> raises
  \<open>FileNotFoundError\<close> or \<open>UnicodeDecodeError\<close>; writing replaces the content. What is
  printed is kept in order. A function that can raise returns the exception, if any,
  together with the world as it is at that moment.
\<close>

datatype file_content = Text string | Undecodable

datatype exn = FileNotFoundError string | UnicodeDecodeError string

datatype printed =
    Cleaning_files nat | Cleaning string | Cleaned | All_files_cleaned
  | Found_files nat | Checking string | Fixed "fix_applied list" | Backup_saved string
  | No_fixes_needed | Error_processing string exn | Completed_processing nat
  | No_md_files | Found_md_files nat | Converting string | Created string
  | Error_converting string exn | Conversion_complete "string list"

record world =
  files :: "string \<rightharpoonup> file_content"
  console :: "printed list"

definition read_text :: "world \<Rightarrow> string \<Rightarrow> exn + string" where
  "read_text w path =
     (case files w path of
        None \<Rightarrow> Inl (FileNotFoundError path)
      | Some Undecodable \<Rightarrow> Inl (UnicodeDecodeError path)
      | Some (Text t) \<Rightarrow> Inr t)"

definition write_text :: "string \<Rightarrow> string \<Rightarrow> world \<Rightarrow> world" where
  "write_text path t w = w\<lparr>files := (files w)(path \<mapsto> Text t)\<rparr>"

definition print :: "printed \<Rightarrow> world \<Rightarrow> world" where
  "print x w = w\<lparr>console := console w @ [x]\<rparr>"

text \<open>\<open>clean_mdx.py\<close>: \<open>clean_mdx_file\<close> and \<open>main\<close>; \<open>globbed\<close> is what \<open>glob.glob\<close> returns.\<close>

definition clean_mdx_file :: "string \<Rightarrow> world \<Rightarrow> exn option \<times> world" where
  "clean_mdx_file file_path w =
     (case read_text w file_path of
        Inl e \<Rightarrow> (Some e, w)
      | Inr content \<Rightarrow>
          (None, print Cleaned (write_text file_path (clean_mdx_content content)
                                 (print (Cleaning file_path) w))))"

fun clean_loop :: "string list \<Rightarrow> world \<Rightarrow> exn option \<times> world" where
  "clean_loop [] w = (None, w)"
| "clean_loop (file_path # rest) w =
     (case clean_mdx_file file_path w of
        (Some e, w') \<Rightarrow> (Some e, w')
      | (None, w') \<Rightarrow> clean_loop rest w')"

definition clean_main :: "string list \<Rightarrow> world \<Rightarrow> exn option \<times> world" where
  "clean_main globbed w =
     (let mdx_files = filter (\<lambda>f. \<not> suffix ''index.mdx'' f) globbed
      in case clean_loop mdx_files (print (Cleaning_files (length mdx_files)) w) of
           (Some e, w') \<Rightarrow> (Some e, w')
         | (None, w') \<Rightarrow> (None, print All_files_cleaned w'))"

text \<open>
  \<open>fix_mdx_issues.py\<close>: \<open>fix_mdx_issues\<close> reads the file; the body of the \<open>try\<close> in \<open>main\<close>
  is \<open>fix_try\<close>, and \<open>fix_one\<close> is the whole iteration with its \<open>except Exception\<close>.
\<close>

definition basename :: "string \<Rightarrow> string" where
  "basename path = rev (takeWhile (\<lambda>x. x \<noteq> CHR ''/'') (rev path))"

definition fix_mdx_issues :: "string \<Rightarrow> world \<Rightarrow> exn + (string \<times> fix_applied list \<times> bool)" where
  "fix_mdx_issues file_path w =
     (case read_text w file_path of Inl e \<Rightarrow> Inl e | Inr content \<Rightarrow> Inr (fix_mdx_issues_content content))"

definition fix_try :: "string \<Rightarrow> world \<Rightarrow> exn option \<times> world" where
  "fix_try file_path w =
     (case fix_mdx_issues file_path w of
        Inl e \<Rightarrow> (Some e, w)
      | Inr (fixed_content, fixes, was_modified) \<Rightarrow>
          if was_modified
          then (case read_text w file_path of
                  Inl e \<Rightarrow> (Some e, w)
                | Inr original \<Rightarrow>
                    (None, print (Backup_saved (basename file_path))
                             (print (Fixed fixes)
                               (write_text file_path fixed_content
                                 (write_text (file_path @ ''.backup'') original w)))))
          else (None, print No_fixes_needed w))"

definition fix_one :: "string \<Rightarrow> world \<Rightarrow> world" where
  "fix_one file_path w =
     (case fix_try file_path (print (Checking (basename file_path)) w) of
        (Some e, w') \<Rightarrow> print (Error_processing (basename file_path) e) w'
      | (None, w') \<Rightarrow> w')"

definition fix_main :: "string list \<Rightarrow> world \<Rightarrow> world" where
  "fix_main mdx_files w =
     print (Completed_processing (length mdx_files))
       (foldl (\<lambda>w file_path. fix_one file_path w) (print (Found_files (length mdx_files)) w)
          mdx_files)"

text \<open>
  \<open>docs/jupyter/convert_md_to_mdx.py\<close>: \<open>main\<close>. The chain of substitutions that
  \<open>convert_md_to_mdx\<close> applies to the content is the parameter \<open>convert\<close>; the loop carries
  \<open>converted_files\<close>.
\<close>

definition convert_md_to_mdx ::
    "(string \<Rightarrow> string \<Rightarrow> string) \<Rightarrow> string \<Rightarrow> world \<Rightarrow> (exn + string) \<times> world" where
  "convert_md_to_mdx convert md_file_path w =
     (case read_text w md_file_path of
        Inl e \<Rightarrow> (Inl e, w)
      | Inr content \<Rightarrow>
          (let mdx_file_path = str_replace ''.md'' ''.mdx'' md_file_path
           in (Inr mdx_file_path, write_text mdx_file_path (convert md_file_path content) w)))"

definition convert_one ::
    "(string \<Rightarrow> string \<Rightarrow> string) \<Rightarrow> string list \<times> world \<Rightarrow> string \<Rightarrow> string list \<times> world" where
  "convert_one convert st md_file =
     (case convert_md_to_mdx convert md_file (print (Converting md_file) (snd st)) of
        (Inr mdx_file, w') \<Rightarrow> (fst st @ [mdx_file], print (Created mdx_file) w')
      | (Inl e, w') \<Rightarrow> (fst st, print (Error_converting md_file e) w'))"

definition convert_main :: "(string \<Rightarrow> string \<Rightarrow> string) \<Rightarrow> string list \<Rightarrow> world \<Rightarrow> world" where
  "convert_main convert md_files w =
     (if md_files = [] then print No_md_files w
      else (let (converted_files, w) =
                  foldl (convert_one convert) ([], print (Found_md_files (length md_files)) w) md_files
            in print (Conversion_complete converted_files) w))"

subsection \<open>The angle-bracket rule, character by character\<close>

text \<open>
  The claim about \<open><\<close> and \<open>>\<close> speaks of each character and its two neighbours.
  \<open>rewrite_by_neighbours\<close> rewrites every character of a text by a rule that sees the
  character before it and the character after it in the original text. \<open>claimed_angle\<close>
  follows the words of the claim; \<open>notebook_angle\<close> differs in the rule for \<open>>\<close>, which
  looks only at the character before; \<open>lt_only\<close> is the rule for \<open><\<close> alone.
\<close>

fun rewrite_by_neighbours ::
    "(char option \<Rightarrow> char \<Rightarrow> char option \<Rightarrow> string) \<Rightarrow> char option \<Rightarrow> string \<Rightarrow> string" where
  "rewrite_by_neighbours f before [] = []"
| "rewrite_by_neighbours f before (c # cs) =
     f before c (case cs of [] \<Rightarrow> None | d # _ \<Rightarrow> Some d) @ rewrite_by_neighbours f (Some c) cs"

definition is_letter :: "char option \<Rightarrow> bool" where
  "is_letter x = (case x of None \<Rightarrow> False | Some c \<Rightarrow> is_alpha c)"

definition opens_tag :: "char option \<Rightarrow> bool" where
  "opens_tag x = (case x of None \<Rightarrow> False | Some d \<Rightarrow> is_alpha d \<or> d = CHR ''/'' \<or> d = CHR ''!'')"

definition claimed_angle :: "char option \<Rightarrow> char \<Rightarrow> char option \<Rightarrow> string" where
  "claimed_angle before c after =
     (if c = CHR ''<'' \<and> \<not> opens_tag after then ''&lt;''
      else if c = CHR ''>'' \<and> \<not> is_letter before \<and> \<not> is_letter after then ''&gt;''
      else [c])"

definition notebook_angle :: "char option \<Rightarrow> char \<Rightarrow> char option \<Rightarrow> string" where
  "notebook_angle before c after =
     (if c = CHR ''<'' \<and> \<not> opens_tag after then ''&lt;''
      else if c = CHR ''>'' \<and> \<not> is_letter before then ''&gt;''
      else [c])"

definition lt_only :: "char option \<Rightarrow> char \<Rightarrow> char option \<Rightarrow> string" where
  "lt_only before c after = (if c = CHR ''<'' \<and> \<not> opens_tag after then ''&lt;'' else [c])"

subsection \<open>Heading lines\<close>

text \<open>
  The statement about titles speaks of the first heading line of a text: a \<open>#\<close> that
  stands at the start of a line and is followed by white space. \<open>no_heading_from\<close> says
  that a text has no such \<open>#\<close>; its first argument tells whether the text begins at the
  start of a line.
\<close>

fun no_heading_from :: "bool \<Rightarrow> string \<Rightarrow> bool" where
  "no_heading_from line_start [] = True"
| "no_heading_from line_start (c # cs) =
     (\<not> (line_start \<and> c = CHR ''#'' \<and> cs \<noteq> [] \<and> is_space (hd cs))
      \<and> no_heading_from (c = nl) cs)"

subsection \<open>The brace rule, position by position\<close>

text \<open>
  The statement about braces speaks of every brace outside code. For the lines \<open>ls\<close> of a
  text, line \<open>i\<close> is inside a fenced block when an odd number of fence lines stands before
  it; \<open>prose_lines\<close> are the lines that are neither fence lines nor inside a fenced block;
  a character is inside inline code when an odd number of backquotes stands before it,
  counted on the prose lines before its line and on its own line. \<open>brace_rule k\<close> puts
  \<open>k\<close> backslashes before the character at line \<open>i\<close>, column \<open>j\<close> when it is a brace on a
  prose line and outside inline code; \<open>with_backslashes k\<close> does so at every position.
\<close>

definition in_fenced :: "string list \<Rightarrow> bool" where
  "in_fenced before = odd (length (filter is_fence before))"

definition prose_lines :: "string list \<Rightarrow> string list" where
  "prose_lines ls =
     map (\<lambda>i. ls ! i)
       (filter (\<lambda>i. \<not> is_fence (ls ! i) \<and> \<not> in_fenced (take i ls)) [0..<length ls])"

definition in_inline :: "string list \<Rightarrow> string \<Rightarrow> bool" where
  "in_inline lines_before chars_before =
     odd (count_list (concat (prose_lines lines_before) @ chars_before) btick)"

definition brace_rule :: "nat \<Rightarrow> string list \<Rightarrow> nat \<Rightarrow> nat \<Rightarrow> string" where
  "brace_rule k ls i j =
     (let l = ls ! i; c = l ! j
      in if (c = CHR ''{'' \<or> c = CHR ''}'') \<and> \<not> is_fence l \<and> \<not> in_fenced (take i ls)
            \<and> \<not> in_inline (take i ls) (take j l)
         then replicate k bslash @ [c] else [c])"

definition with_backslashes :: "nat \<Rightarrow> string list \<Rightarrow> string list" where
  "with_backslashes k ls =
     map (\<lambda>i. concat (map (brace_rule k ls i) [0..<length (ls ! i)])) [0..<length ls]"

section \<open>Image payloads\<close>

lemma foldl_append_acc:
  "foldl (\<lambda>acc x. acc @ f x) a xs = a @ concat (map f xs)"
  by (induction xs arbitrary: a) simp_all

lemma transmute_outputs_concat: "transmute_outputs outs = concat (map transmute_output outs)"
  by (simp add: transmute_outputs_def foldl_append_acc)

lemma transmute_data_image_indep:
  "d ''image/png'' = Some p \<Longrightarrow> transmute_data (d(''image/png'' \<mapsto> q)) = transmute_data d"
  by (simp add: transmute_data_def)

lemma transmute_data_has_note:
  "d ''image/png'' = Some p \<Longrightarrow> sublist image_note (transmute_data d)"
  unfolding transmute_data_def sublist_def by (simp del: append_assoc) blast

text \<open>
  C1, as stated, fails: the payload text is in the rendered output when another rendered
  field holds the same text (here \<open>text/plain\<close>).
\<close>

theorem image_payload_text_can_appear:
  "sublist ''iVBORw0KGgo=''
     (transmute_outputs
        [\<lparr>output_type = Some ''display_data'', out_text = [],
          out_data = [''text/plain'' \<mapsto> [''iVBORw0KGgo=''], ''image/png'' \<mapsto> [''iVBORw0KGgo='']],
          traceback = []\<rparr>])"
  by (simp add: transmute_outputs_def transmute_output_def transmute_data_def sublist_code)

text \<open>
  C1, amended: for an \<open>execute_result\<close> or \<open>display_data\<close> output whose data has the key
  \<open>image/png\<close>, the rendering of that output contains the placeholder admonition, and the
  rendered text of the whole output list is the same whatever the image payload is: the
  payload is never copied into it.
\<close>

theorem image_payload_never_inlined:
  assumes "output_type out \<in> {Some ''execute_result'', Some ''display_data''}"
    and "out_data out ''image/png'' = Some p"
  shows "sublist image_note (transmute_outputs [out])
    \<and> transmute_outputs (pre @ [out\<lparr>out_data := (out_data out)(''image/png'' \<mapsto> q)\<rparr>] @ post)
        = transmute_outputs (pre @ [out] @ post)"
proof -
  have ty: "output_type out \<noteq> Some ''stream''"
    using assms(1) by auto
  have one: "transmute_output out = transmute_data (out_data out)"
    using assms(1) ty by (simp add: transmute_output_def)
  have other: "transmute_output (out\<lparr>out_data := (out_data out)(''image/png'' \<mapsto> q)\<rparr>)
      = transmute_data ((out_data out)(''image/png'' \<mapsto> q))"
    using assms(1) ty by (simp add: transmute_output_def)
  have "sublist image_note (transmute_outputs [out])"
    using transmute_data_has_note [of "out_data out" p] assms(2)
    by (simp add: transmute_outputs_concat one)
  moreover have "transmute_output (out\<lparr>out_data := (out_data out)(''image/png'' \<mapsto> q)\<rparr>)
      = transmute_output out"
    using transmute_data_image_indep [of "out_data out" p q] assms(2)
    by (simp only: one other)
  ultimately show ?thesis
    by (simp add: transmute_outputs_concat)
qed

theorem image_payload_never_inlined_witness:
  "sublist image_note
     (transmute_outputs
        [\<lparr>output_type = Some ''display_data'', out_text = [],
          out_data = [''image/png'' \<mapsto> [''iVBORw0KGgo='']], traceback = []\<rparr>])
   \<and> transmute_outputs
        ([] @ [\<lparr>output_type = Some ''display_data'', out_text = [],
                out_data = [''image/png'' \<mapsto> [''iVBORw0KGgo='']], traceback = []\<rparr>
               \<lparr>out_data := [''image/png'' \<mapsto> [''iVBORw0KGgo='']](''image/png'' \<mapsto> [''AAAA''])\<rparr>] @ [])
      = transmute_outputs
        ([] @ [\<lparr>output_type = Some ''display_data'', out_text = [],
                out_data = [''image/png'' \<mapsto> [''iVBORw0KGgo='']], traceback = []\<rparr>] @ [])"
  using image_payload_never_inlined
    [of "\<lparr>output_type = Some ''display_data'', out_text = [],
          out_data = [''image/png'' \<mapsto> [''iVBORw0KGgo='']], traceback = []\<rparr>"
        "[''iVBORw0KGgo='']" "[]" "[''AAAA'']" "[]"]
  by simp

section \<open>Cells\<close>

lemma transmute_cells_concat: "fst (transmute_cells self cs) = concat (map transmute_cell cs)"
  by (simp add: transmute_cells_def foldl_append_acc)

text \<open>
  C8, as stated, fails: a cell of an unrecognised type adds the separating newline and
  nothing else happens; the counter of the converter stays at 0 and nothing is printed.
\<close>

theorem unrecognised_cell_skipped_silently:
  "transmute_cells init
     [\<lparr>cell_type = Some ''heading'', source = [''Overview''], outputs = []\<rparr>]
   = (''\<newline>'', \<lparr>cell_counter = 0, stdout = []\<rparr>)"
  by (simp add: transmute_cells_def transmute_cell_def init_def)

text \<open>
  C8, amended: \<open>_transmute_cells\<close> leaves the converter's counter and the standard output
  as they were, whatever the cells are (a skip is neither counted nor reported); the
  content is the renderings of the cells, one after the other in input order; a cell whose
  type is not \<open>markdown\<close>, \<open>code\<close> or \<open>raw\<close> contributes only the separating newline.
\<close>

theorem cells_in_order_skip_uncounted:
  "snd (transmute_cells self cs) = self
   \<and> fst (transmute_cells self cs) = concat (map transmute_cell cs)
   \<and> (cell_type c \<notin> {Some ''markdown'', Some ''code'', Some ''raw''}
        \<longrightarrow> transmute_cell c = ''\<newline>'')"
  by (simp add: transmute_cells_concat) (simp add: transmute_cells_def transmute_cell_def)

theorem cells_in_order_skip_uncounted_witness:
  "snd (transmute_cells init
          [\<lparr>cell_type = Some ''raw'', source = [''a''], outputs = []\<rparr>,
           \<lparr>cell_type = Some ''heading'', source = [''b''], outputs = []\<rparr>]) = init
   \<and> fst (transmute_cells init
          [\<lparr>cell_type = Some ''raw'', source = [''a''], outputs = []\<rparr>,
           \<lparr>cell_type = Some ''heading'', source = [''b''], outputs = []\<rparr>])
       = ''```\<newline>a\<newline>```\<newline>\<newline>\<newline>''
   \<and> transmute_cell \<lparr>cell_type = Some ''heading'', source = [''b''], outputs = []\<rparr> = ''\<newline>''"
  using cells_in_order_skip_uncounted
    [of init "[\<lparr>cell_type = Some ''raw'', source = [''a''], outputs = []\<rparr>,
           \<lparr>cell_type = Some ''heading'', source = [''b''], outputs = []\<rparr>]"
        "\<lparr>cell_type = Some ''heading'', source = [''b''], outputs = []\<rparr>"]
  by (simp add: transmute_cell_def transmute_raw_cell_def)

section \<open>Determinism\<close>

lemma transmute_notebook_text:
  "fst (transmute_notebook title self nb path stem output_path) =
     (case cells nb of
        None \<Rightarrow> Inl (KeyError ''cells'')
      | Some cs \<Rightarrow>
          Inr (create_frontmatter (extract_title title nb stem) nb
               @ concat (map transmute_cell cs)))"
  by (simp add: transmute_notebook_def transmute_cells_def foldl_append_acc Let_def
      split: option.splits)

text \<open>
  C9: the text that \<open>transmute_notebook\<close> produces for a parsed notebook (front matter
  followed by the cells, or the \<open>KeyError\<close>) is the same on a second run on the same
  converter object, and the same from any state of the converter: it is a function of the
  notebook and the file stem alone.
\<close>

theorem rendering_deterministic:
  "fst (transmute_notebook title (snd (transmute_notebook title self nb path stem output_path))
          nb path stem output_path)
     = fst (transmute_notebook title self nb path stem output_path)
   \<and> fst (transmute_notebook title self' nb path stem output_path)
     = fst (transmute_notebook title self nb path stem output_path)"
  by (simp only: transmute_notebook_text)

section \<open>Title extraction\<close>

lemma not_space_hash: "\<not> is_space CHR ''#''"
  by (simp add: is_space_def)

lemma h1_at_not_hash: "c \<noteq> CHR ''#'' \<Longrightarrow> h1_at (c # cs) = None"
  by (simp add: h1_at_def)

lemma h1_at_no_space: "cs = [] \<or> \<not> is_space (hd cs) \<Longrightarrow> h1_at (c # cs) = None"
  by (cases cs) (auto simp: h1_at_def)

lemma h1_search_from_no_heading:
  "no_heading_from b s \<Longrightarrow> h1_search_from b s = None"
proof (induction s arbitrary: b)
  case Nil
  show ?case by simp
next
  case (Cons c s)
  have "b \<Longrightarrow> h1_at (c # s) = None"
    using Cons.prems h1_at_not_hash [of c s] h1_at_no_space [of s c] by auto
  then show ?case
    using Cons by auto
qed

lemma h1_search_from_skip:
  "no_heading_from b pre \<Longrightarrow> pre = [] \<or> last pre = nl \<Longrightarrow>
   h1_search_from b (pre @ rest) = h1_search_from (if pre = [] then b else True) rest"
proof (induction pre arbitrary: b)
  case Nil
  show ?case by simp
next
  case (Cons c pre)
  show ?case
  proof (cases "pre = []")
    case True
    then have "c = nl" using Cons.prems by simp
    then show ?thesis using True by (simp add: h1_at_not_hash)
  next
    case False
    then have l: "last pre = nl" using Cons.prems by simp
    have "b \<Longrightarrow> c \<noteq> CHR ''#'' \<or> \<not> is_space (hd (pre @ rest))"
      using Cons.prems False by auto
    then have "b \<Longrightarrow> h1_at (c # pre @ rest) = None"
      using h1_at_not_hash [of c "pre @ rest"] h1_at_no_space [of "pre @ rest" c] by auto
    moreover have "h1_search_from (c = nl) (pre @ rest) = h1_search_from True rest"
      using Cons.IH [of "c = nl"] Cons.prems False l by simp
    ultimately show ?thesis
      using False by auto
  qed
qed

lemma takeWhile_all_append:
  "\<forall>x\<in>set ws. P x \<Longrightarrow> v = [] \<or> \<not> P (hd v) \<Longrightarrow> takeWhile P (ws @ v) = ws"
  by (induction ws) (cases v; auto)+

lemma dropWhile_all_append:
  "\<forall>x\<in>set ws. P x \<Longrightarrow> v = [] \<or> \<not> P (hd v) \<Longrightarrow> dropWhile P (ws @ v) = v"
  by (induction ws) (cases v; auto)+

lemma h1_at_heading:
  assumes "ws \<noteq> []" "\<forall>x\<in>set ws. is_space x" "v \<noteq> []" "\<not> is_space (hd v)"
  shows "h1_at (CHR ''#'' # ws @ v) = Some (takeWhile (\<lambda>x. x \<noteq> nl) v)"
  using assms takeWhile_all_append [of ws is_space v] dropWhile_all_append [of ws is_space v]
  by (simp add: h1_at_def)

lemma strip_all_space: "\<forall>x\<in>set s. is_space x \<Longrightarrow> strip s = []"
proof -
  assume "\<forall>x\<in>set s. is_space x"
  then have d: "dropWhile is_space s = []" by simp
  show ?thesis unfolding strip_def d by simp
qed

lemma find_rev_upt_None:
  "(find (\<lambda>i. ws ! i \<noteq> nl) (rev [1..<length ws]) = None) = (\<forall>x\<in>set (tl ws). x = nl)"
proof -
  have "(\<forall>x\<in>set (tl ws). x = nl) = (\<forall>i<length (tl ws). tl ws ! i = nl)"
    by (simp add: all_set_conv_all_nth)
  also have "\<dots> = (\<forall>i. 1 \<le> i \<and> i < length ws \<longrightarrow> ws ! i = nl)"
  proof (cases ws)
    case Nil
    then show ?thesis by simp
  next
    case (Cons a u)
    then show ?thesis
      by (auto simp: nth_Cons split: nat.splits)
  qed
  finally show ?thesis
    by (auto simp: find_None_iff)
qed

lemma h1_at_blank:
  assumes "\<forall>x\<in>set ws. is_space x"
  shows "case h1_at (CHR ''#'' # ws) of
           None \<Rightarrow> \<forall>x\<in>set (tl ws). x = nl
         | Some g \<Rightarrow> strip g = [] \<and> \<not> (\<forall>x\<in>set (tl ws). x = nl)"
proof (cases "find (\<lambda>i. ws ! i \<noteq> nl) (rev [1..<length ws])")
  case None
  have tw: "takeWhile is_space ws = ws" using assms by simp
  have dw: "dropWhile is_space ws = []" using assms by simp
  have "\<forall>x\<in>set (tl ws). x = nl"
    using None find_rev_upt_None [of ws] by blast
  moreover have "h1_at (CHR ''#'' # ws) = None"
    using None by (simp add: h1_at_def Let_def tw dw del: dropWhile_eq_Nil_conv takeWhile_eq_all_conv)
  ultimately show ?thesis by simp
next
  case (Some i)
  have n: "\<not> (\<forall>x\<in>set (tl ws). x = nl)"
    using Some find_rev_upt_None [of ws] by (metis option.distinct(1))
  then have ne: "ws \<noteq> []" by auto
  have tw: "takeWhile is_space ws = ws" using assms by simp
  have dw: "dropWhile is_space ws = []" using assms by simp
  have h: "h1_at (CHR ''#'' # ws) = Some (takeWhile (\<lambda>x. x \<noteq> nl) (drop i ws))"
    using Some ne by (simp add: h1_at_def Let_def tw dw del: dropWhile_eq_Nil_conv takeWhile_eq_all_conv)
  have "\<forall>x\<in>set (takeWhile (\<lambda>x. x \<noteq> nl) (drop i ws)). is_space x"
    using assms by (meson in_set_dropD set_takeWhileD)
  then show ?thesis
    using h n strip_all_space by simp
qed

lemma no_heading_all_space: "\<forall>x\<in>set ws. is_space x \<Longrightarrow> no_heading_from b ws"
  by (induction ws arbitrary: b) (auto simp: not_space_hash)

lemma h1_search_blank:
  assumes "\<forall>x\<in>set ws. is_space x"
  shows "(case h1_search_from True (CHR ''#'' # ws) of Some g \<Rightarrow> Some (strip g) | None \<Rightarrow> None)
     = (if \<forall>x\<in>set (tl ws). x = nl then None else Some [])"
proof -
  have r: "h1_search_from False ws = None"
    using assms by (intro h1_search_from_no_heading no_heading_all_space)
  show ?thesis
    using h1_at_blank [OF assms] r
    by (cases "h1_at (CHR ''#'' # ws)") auto
qed

lemma first_heading_cases:
  "no_heading_from b s
   \<or> (\<exists>pre ws v. s = pre @ CHR ''#'' # ws @ v \<and> no_heading_from b pre
        \<and> (if pre = [] then b else last pre = nl)
        \<and> ws \<noteq> [] \<and> (\<forall>x\<in>set ws. is_space x) \<and> (v = [] \<or> \<not> is_space (hd v)))"
proof (induction s arbitrary: b)
  case Nil
  show ?case by simp
next
  case (Cons c s)
  show ?case
  proof (cases "b \<and> c = CHR ''#'' \<and> s \<noteq> [] \<and> is_space (hd s)")
    case True
    let ?ws = "takeWhile is_space s" and ?v = "dropWhile is_space s"
    have "c # s = [] @ CHR ''#'' # ?ws @ ?v" using True by simp
    moreover have "?ws \<noteq> []" using True by (cases s) auto
    moreover have "\<forall>x\<in>set ?ws. is_space x" by (auto dest: set_takeWhileD)
    moreover have "?v = [] \<or> \<not> is_space (hd ?v)" by (metis hd_dropWhile)
    ultimately show ?thesis
      using True by (intro disjI2 exI [of _ "[]"] exI [of _ ?ws] exI [of _ ?v]) simp
  next
    case False
    from Cons [of "c = nl"] show ?thesis
    proof
      assume "no_heading_from (c = nl) s"
      then show ?thesis using False by auto
    next
      assume "\<exists>pre ws v. s = pre @ CHR ''#'' # ws @ v \<and> no_heading_from (c = nl) pre
        \<and> (if pre = [] then c = nl else last pre = nl)
        \<and> ws \<noteq> [] \<and> (\<forall>x\<in>set ws. is_space x) \<and> (v = [] \<or> \<not> is_space (hd v))"
      then obtain pre ws v where p: "s = pre @ CHR ''#'' # ws @ v" "no_heading_from (c = nl) pre"
        "if pre = [] then c = nl else last pre = nl"
        "ws \<noteq> []" "\<forall>x\<in>set ws. is_space x" "v = [] \<or> \<not> is_space (hd v)"
        by blast
      have h: "pre \<noteq> [] \<Longrightarrow> hd pre = hd s" using p(1) by (cases pre) auto
      have "no_heading_from b (c # pre)"
        using False p(2) h p(1) by (cases pre) auto
      moreover have "last (c # pre) = nl" using p(3) by (auto split: if_splits)
      ultimately show ?thesis
        using p by (intro disjI2 exI [of _ "c # pre"] exI [of _ ws] exI [of _ v]) simp
    qed
  qed
qed

lemma extract_title_loop_first_markdown:
  "\<forall>k\<in>set skipped. cell_type k \<noteq> Some ''markdown'' \<Longrightarrow> cell_type c = Some ''markdown'' \<Longrightarrow>
   extract_title_loop (skipped @ c # others) =
     (case h1_search (concat (source c)) of Some g \<Rightarrow> Some (strip g) | None \<Rightarrow> None)"
  by (induction skipped) simp_all

lemma extract_title_loop_no_markdown:
  "\<forall>k\<in>set cs. cell_type k \<noteq> Some ''markdown'' \<Longrightarrow> extract_title_loop cs = None"
  by (induction cs) simp_all

lemma first_markdown_cases:
  "(\<forall>k\<in>set cs. cell_type k \<noteq> Some ''markdown'')
   \<or> (\<exists>skipped c others. cs = skipped @ c # others
        \<and> (\<forall>k\<in>set skipped. cell_type k \<noteq> Some ''markdown'') \<and> cell_type c = Some ''markdown'')"
  using split_list_first_prop [of cs "\<lambda>k. cell_type k = Some ''markdown''"] by blast


text \<open>
  C4, as stated, fails: with a metadata title \<open>A\<close> and a first Markdown cell headed \<open>B\<close> the
  extractor returns \<open>B\<close>; \<open>_extract_title\<close> never reads the metadata.
\<close>

theorem title_ignores_metadata:
  "extract_title title_ascii
     \<lparr>metadata = [''title'' \<mapsto> ''A''],
      cells = Some [\<lparr>cell_type = Some ''markdown'', source = [''# B''], outputs = []\<rparr>]\<rparr>
     ''c'' = ''B''"
  by (simp add: extract_title_def get_cells_def h1_search_def h1_at_def is_space_def strip_def)

text \<open>
  C4, amended: the title is the same whatever the metadata holds. Only the first Markdown
  cell is read. Its heading is the first \<open>#\<close> that stands at the start of a line and is
  followed by white space (so \<open>##\<close> is no heading, nor is a \<open>#\<close> inside a line). When
  the white space after that \<open>#\<close>, line breaks included, ends at a character \<open>v\<close>, the
  title is the rest of the line from \<open>v\<close> on, stripped. When only white space follows the
  \<open>#\<close> up to the end of the text, the title is empty, unless all of it after its first
  character is line breaks: then, as when the first Markdown cell has no heading or the
  notebook has no Markdown cell, the title is made from the file stem (\<open>_\<close> and \<open>-\<close> made
  spaces, then \<open>str.title\<close>). Every notebook falls under one of these cases.
\<close>

theorem title_precedence:
  "(get_cells nb = skipped @ c # others
      \<and> (\<forall>k\<in>set skipped. cell_type k \<noteq> Some ''markdown'') \<and> cell_type c = Some ''markdown''
      \<and> concat (source c) = pre @ CHR ''#'' # ws @ v
      \<and> no_heading_from True pre \<and> (pre = [] \<or> last pre = nl)
      \<and> ws \<noteq> [] \<and> (\<forall>x\<in>set ws. is_space x) \<and> v \<noteq> [] \<and> \<not> is_space (hd v)
    \<longrightarrow> extract_title title (nb\<lparr>metadata := m\<rparr>) stem = strip (takeWhile (\<lambda>x. x \<noteq> nl) v))
   \<and> (get_cells nb = skipped @ c # others
      \<and> (\<forall>k\<in>set skipped. cell_type k \<noteq> Some ''markdown'') \<and> cell_type c = Some ''markdown''
      \<and> concat (source c) = pre @ CHR ''#'' # ws
      \<and> no_heading_from True pre \<and> (pre = [] \<or> last pre = nl)
      \<and> ws \<noteq> [] \<and> (\<forall>x\<in>set ws. is_space x)
    \<longrightarrow> extract_title title (nb\<lparr>metadata := m\<rparr>) stem
        = (if \<forall>x\<in>set (tl ws). x = nl then filename_title title stem else []))
   \<and> (get_cells nb = skipped @ c # others
      \<and> (\<forall>k\<in>set skipped. cell_type k \<noteq> Some ''markdown'') \<and> cell_type c = Some ''markdown''
      \<and> no_heading_from True (concat (source c))
    \<longrightarrow> extract_title title (nb\<lparr>metadata := m\<rparr>) stem = filename_title title stem)
   \<and> ((\<forall>k\<in>set (get_cells nb). cell_type k \<noteq> Some ''markdown'')
    \<longrightarrow> extract_title title (nb\<lparr>metadata := m\<rparr>) stem = filename_title title stem)
   \<and> ((\<forall>k\<in>set cs. cell_type k \<noteq> Some ''markdown'')
      \<or> (\<exists>skipped c others. cs = skipped @ c # others
           \<and> (\<forall>k\<in>set skipped. cell_type k \<noteq> Some ''markdown'')
           \<and> cell_type c = Some ''markdown''))
   \<and> (no_heading_from True s
      \<or> (\<exists>pre ws v. s = pre @ CHR ''#'' # ws @ v
           \<and> no_heading_from True pre \<and> (pre = [] \<or> last pre = nl)
           \<and> ws \<noteq> [] \<and> (\<forall>x\<in>set ws. is_space x) \<and> (v = [] \<or> \<not> is_space (hd v))))"
proof -
  have meta: "get_cells (nb\<lparr>metadata := m\<rparr>) = get_cells nb"
    by (simp add: get_cells_def)
  have cases_s: "no_heading_from True s
      \<or> (\<exists>pre ws v. s = pre @ CHR ''#'' # ws @ v
           \<and> no_heading_from True pre \<and> (pre = [] \<or> last pre = nl)
           \<and> ws \<noteq> [] \<and> (\<forall>x\<in>set ws. is_space x) \<and> (v = [] \<or> \<not> is_space (hd v)))"
  proof -
    have eq: "\<And>pre. (if pre = [] then True else last pre = nl) = (pre = [] \<or> last pre = nl)"
      by simp
    show ?thesis
      using first_heading_cases [of True s] by (simp only: eq)
  qed
  show ?thesis
  proof (intro conjI impI)
    assume a: "get_cells nb = skipped @ c # others
      \<and> (\<forall>k\<in>set skipped. cell_type k \<noteq> Some ''markdown'') \<and> cell_type c = Some ''markdown''
      \<and> concat (source c) = pre @ CHR ''#'' # ws @ v
      \<and> no_heading_from True pre \<and> (pre = [] \<or> last pre = nl)
      \<and> ws \<noteq> [] \<and> (\<forall>x\<in>set ws. is_space x) \<and> v \<noteq> [] \<and> \<not> is_space (hd v)"
    have "h1_search (concat (source c)) = h1_search_from True (CHR ''#'' # ws @ v)"
      unfolding h1_search_def using a h1_search_from_skip [of True pre "CHR ''#'' # ws @ v"]
      by simp
    also have "\<dots> = Some (takeWhile (\<lambda>x. x \<noteq> nl) v)"
      using a h1_at_heading [of ws v] by simp
    finally have "extract_title_loop (get_cells nb) = Some (strip (takeWhile (\<lambda>x. x \<noteq> nl) v))"
      using a extract_title_loop_first_markdown [of skipped c others] by simp
    then show "extract_title title (nb\<lparr>metadata := m\<rparr>) stem = strip (takeWhile (\<lambda>x. x \<noteq> nl) v)"
      by (simp add: extract_title_def meta)
  next
    assume a: "get_cells nb = skipped @ c # others
      \<and> (\<forall>k\<in>set skipped. cell_type k \<noteq> Some ''markdown'') \<and> cell_type c = Some ''markdown''
      \<and> concat (source c) = pre @ CHR ''#'' # ws
      \<and> no_heading_from True pre \<and> (pre = [] \<or> last pre = nl)
      \<and> ws \<noteq> [] \<and> (\<forall>x\<in>set ws. is_space x)"
    have "h1_search (concat (source c)) = h1_search_from True (CHR ''#'' # ws)"
      unfolding h1_search_def using a h1_search_from_skip [of True pre "CHR ''#'' # ws"]
      by simp
    then have "extract_title_loop (get_cells nb)
        = (if \<forall>x\<in>set (tl ws). x = nl then None else Some [])"
      using a extract_title_loop_first_markdown [of skipped c others] h1_search_blank [of ws]
      by simp
    then show "extract_title title (nb\<lparr>metadata := m\<rparr>) stem
        = (if \<forall>x\<in>set (tl ws). x = nl then filename_title title stem else [])"
      by (simp add: extract_title_def meta)
  next
    assume a: "get_cells nb = skipped @ c # others
      \<and> (\<forall>k\<in>set skipped. cell_type k \<noteq> Some ''markdown'') \<and> cell_type c = Some ''markdown''
      \<and> no_heading_from True (concat (source c))"
    then have "h1_search (concat (source c)) = None"
      unfolding h1_search_def using h1_search_from_no_heading by blast
    then have "extract_title_loop (get_cells nb) = None"
      using a extract_title_loop_first_markdown [of skipped c others] by simp
    then show "extract_title title (nb\<lparr>metadata := m\<rparr>) stem = filename_title title stem"
      by (simp add: extract_title_def meta)
  next
    assume "\<forall>k\<in>set (get_cells nb). cell_type k \<noteq> Some ''markdown''"
    then have "extract_title_loop (get_cells nb) = None"
      by (rule extract_title_loop_no_markdown)
    then show "extract_title title (nb\<lparr>metadata := m\<rparr>) stem = filename_title title stem"
      by (simp add: extract_title_def meta)
  next
    show "(\<forall>k\<in>set cs. cell_type k \<noteq> Some ''markdown'')
      \<or> (\<exists>skipped c others. cs = skipped @ c # others
           \<and> (\<forall>k\<in>set skipped. cell_type k \<noteq> Some ''markdown'')
           \<and> cell_type c = Some ''markdown'')"
      by (rule first_markdown_cases)
  next
    show "no_heading_from True s
      \<or> (\<exists>pre ws v. s = pre @ CHR ''#'' # ws @ v
           \<and> no_heading_from True pre \<and> (pre = [] \<or> last pre = nl)
           \<and> ws \<noteq> [] \<and> (\<forall>x\<in>set ws. is_space x) \<and> (v = [] \<or> \<not> is_space (hd v)))"
      by (rule cases_s)
  qed
qed

theorem title_precedence_witness:
  "extract_title title_ascii
     \<lparr>metadata = [''title'' \<mapsto> ''A''],
      cells = Some [\<lparr>cell_type = Some ''code'', source = [''x = 1''], outputs = []\<rparr>,
                    \<lparr>cell_type = Some ''markdown'',
                     source = [''see issue # 5\<newline>'', ''#  B\<newline>'', ''text''], outputs = []\<rparr>]\<rparr>
     ''my_file-1'' = ''B''
   \<and> extract_title title_ascii
     \<lparr>metadata = [''title'' \<mapsto> ''A''],
      cells = Some [\<lparr>cell_type = Some ''markdown'', source = [''#\<newline>'', ''\<newline>'', ''next line''],
                     outputs = []\<rparr>]\<rparr>
     ''my_file-1'' = ''next line''
   \<and> extract_title title_ascii
     \<lparr>metadata = [''title'' \<mapsto> ''A''],
      cells = Some [\<lparr>cell_type = Some ''markdown'', source = [''#  ''], outputs = []\<rparr>]\<rparr>
     ''my_file-1'' = []
   \<and> extract_title title_ascii
     \<lparr>metadata = [''title'' \<mapsto> ''A''],
      cells = Some [\<lparr>cell_type = Some ''markdown'', source = [''#\<newline>''], outputs = []\<rparr>]\<rparr>
     ''my_file-1'' = ''My File 1''
   \<and> extract_title title_ascii
     \<lparr>metadata = [''title'' \<mapsto> ''A''],
      cells = Some [\<lparr>cell_type = Some ''markdown'', source = [''## Sub\<newline>'', ''text''],
                     outputs = []\<rparr>,
                    \<lparr>cell_type = Some ''markdown'', source = [''# Late''], outputs = []\<rparr>]\<rparr>
     ''my_file-1'' = ''My File 1''
   \<and> extract_title title_ascii
     \<lparr>metadata = [''title'' \<mapsto> ''A''],
      cells = Some [\<lparr>cell_type = Some ''code'', source = [''x = 1''], outputs = []\<rparr>]\<rparr>
     ''my_file-1'' = ''My File 1''
   \<and> extract_title title_ascii
     \<lparr>metadata = [''title'' \<mapsto> ''A''],
      cells = Some [\<lparr>cell_type = Some ''markdown'',
                     source = [CHR ''#'' # CHR '' '' # CHR 0xA0 # ''Title''], outputs = []\<rparr>]\<rparr>
     ''my_file-1'' = ''Title''"
proof -
  let ?code = "\<lparr>cell_type = Some ''code'', source = [''x = 1''], outputs = []\<rparr>"
  let ?md1 = "\<lparr>cell_type = Some ''markdown'',
               source = [''see issue # 5\<newline>'', ''#  B\<newline>'', ''text''], outputs = []\<rparr>"
  let ?md2 = "\<lparr>cell_type = Some ''markdown'', source = [''#\<newline>'', ''\<newline>'', ''next line''],
               outputs = []\<rparr>"
  let ?md3 = "\<lparr>cell_type = Some ''markdown'', source = [''#  ''], outputs = []\<rparr>"
  let ?md4 = "\<lparr>cell_type = Some ''markdown'', source = [''#\<newline>''], outputs = []\<rparr>"
  let ?md5 = "\<lparr>cell_type = Some ''markdown'', source = [''## Sub\<newline>'', ''text''], outputs = []\<rparr>"
  let ?md6 = "\<lparr>cell_type = Some ''markdown'', source = [''# Late''], outputs = []\<rparr>"
  let ?m = "[''title'' \<mapsto> ''A'']"
  have ft: "filename_title title_ascii ''my_file-1'' = ''My File 1''"
    by code_simp
  have s1: "strip ''B'' = ''B''"
    by code_simp
  have s2: "strip ''next line'' = ''next line''"
    by code_simp
  have 1: "extract_title title_ascii (\<lparr>metadata = Map.empty, cells = Some [?code, ?md1]\<rparr>
             \<lparr>metadata := ?m\<rparr>) ''my_file-1'' = strip (takeWhile (\<lambda>x. x \<noteq> nl) ''B\<newline>text'')"
    using title_precedence [where nb = "\<lparr>metadata = Map.empty, cells = Some [?code, ?md1]\<rparr>"
        and skipped = "[?code]" and c = ?md1 and others = "[]" and pre = "''see issue # 5\<newline>''"
        and ws = "''  ''" and v = "''B\<newline>text''" and m = ?m and stem = "''my_file-1''"
        and title = title_ascii, THEN conjunct1]
    by (simp add: get_cells_def is_space_def)
  have 2: "extract_title title_ascii (\<lparr>metadata = Map.empty, cells = Some [?md2]\<rparr>
             \<lparr>metadata := ?m\<rparr>) ''my_file-1'' = strip (takeWhile (\<lambda>x. x \<noteq> nl) ''next line'')"
    using title_precedence [where nb = "\<lparr>metadata = Map.empty, cells = Some [?md2]\<rparr>"
        and skipped = "[]" and c = ?md2 and others = "[]" and pre = "[]"
        and ws = "''\<newline>\<newline>''" and v = "''next line''" and m = ?m and stem = "''my_file-1''"
        and title = title_ascii, THEN conjunct1]
    by (simp add: get_cells_def is_space_def)
  have 3: "extract_title title_ascii (\<lparr>metadata = Map.empty, cells = Some [?md3]\<rparr>
             \<lparr>metadata := ?m\<rparr>) ''my_file-1'' = []"
    using title_precedence [where nb = "\<lparr>metadata = Map.empty, cells = Some [?md3]\<rparr>"
        and skipped = "[]" and c = ?md3 and others = "[]" and pre = "[]"
        and ws = "''  ''" and m = ?m and stem = "''my_file-1''"
        and title = title_ascii, THEN conjunct2, THEN conjunct1]
    by (simp add: get_cells_def is_space_def)
  have 4: "extract_title title_ascii (\<lparr>metadata = Map.empty, cells = Some [?md4]\<rparr>
             \<lparr>metadata := ?m\<rparr>) ''my_file-1'' = filename_title title_ascii ''my_file-1''"
    using title_precedence [where nb = "\<lparr>metadata = Map.empty, cells = Some [?md4]\<rparr>"
        and skipped = "[]" and c = ?md4 and others = "[]" and pre = "[]"
        and ws = "''\<newline>''" and m = ?m and stem = "''my_file-1''"
        and title = title_ascii, THEN conjunct2, THEN conjunct1]
    by (simp add: get_cells_def is_space_def)
  have 5: "extract_title title_ascii (\<lparr>metadata = Map.empty, cells = Some [?md5, ?md6]\<rparr>
             \<lparr>metadata := ?m\<rparr>) ''my_file-1'' = filename_title title_ascii ''my_file-1''"
    using title_precedence [where nb = "\<lparr>metadata = Map.empty, cells = Some [?md5, ?md6]\<rparr>"
        and skipped = "[]" and c = ?md5 and others = "[?md6]" and m = ?m
        and stem = "''my_file-1''" and title = title_ascii,
        THEN conjunct2, THEN conjunct2, THEN conjunct1]
    by (simp add: get_cells_def is_space_def)
  have 6: "extract_title title_ascii (\<lparr>metadata = Map.empty, cells = Some [?code]\<rparr>
             \<lparr>metadata := ?m\<rparr>) ''my_file-1'' = filename_title title_ascii ''my_file-1''"
    using title_precedence [where nb = "\<lparr>metadata = Map.empty, cells = Some [?code]\<rparr>"
        and m = ?m and stem = "''my_file-1''" and title = title_ascii,
        THEN conjunct2, THEN conjunct2, THEN conjunct2, THEN conjunct1]
    by (simp add: get_cells_def)
  let ?md7 = "\<lparr>cell_type = Some ''markdown'',
               source = [CHR ''#'' # CHR '' '' # CHR 0xA0 # ''Title''], outputs = []\<rparr>"
  have s7: "strip ''Title'' = ''Title''"
    by code_simp
  have 7: "extract_title title_ascii (\<lparr>metadata = Map.empty, cells = Some [?md7]\<rparr>
             \<lparr>metadata := ?m\<rparr>) ''my_file-1'' = strip (takeWhile (\<lambda>x. x \<noteq> nl) ''Title'')"
    using title_precedence [where nb = "\<lparr>metadata = Map.empty, cells = Some [?md7]\<rparr>"
        and skipped = "[]" and c = ?md7 and others = "[]" and pre = "[]"
        and ws = "[CHR '' '', CHR 0xA0]" and v = "''Title''" and m = ?m
        and stem = "''my_file-1''" and title = title_ascii, THEN conjunct1]
    by (simp add: get_cells_def is_space_def)
  show ?thesis
    using 1 2 3 4 5 6 7 by (simp add: ft s1 s2 s7)
qed

section \<open>Truncation of the description\<close>

lemma m_spaces_None: "\<not> is_space d \<Longrightarrow> m_spaces prev (d # ds) = None"
  by (simp add: m_spaces_def)

lemma m_spaces_Some:
  "is_space c \<Longrightarrow> m_spaces prev (c # cs) = Some ('' '', length (takeWhile is_space cs))"
  by (simp add: m_spaces_def)

lemma drop_takeWhile_dropWhile: "drop (length (takeWhile P xs)) xs = dropWhile P xs"
  by (induction xs) simp_all

text \<open>After the collapse a white-space character is never followed by another one.\<close>

lemma collapsed_head:
  "is_space (hd (re_sub m_spaces prev s)) \<Longrightarrow> re_sub m_spaces prev s \<noteq> [] \<Longrightarrow>
   tl (re_sub m_spaces prev s) = [] \<or> \<not> is_space (hd (tl (re_sub m_spaces prev s)))"
proof (cases s)
  case Nil
  then show ?thesis by simp
next
  case (Cons c cs)
  assume h: "is_space (hd (re_sub m_spaces prev s))"
  show ?thesis
  proof (cases "is_space c")
    case False
    then show ?thesis using h Cons by (simp add: m_spaces_None)
  next
    case True
    obtain p where r: "re_sub m_spaces prev s = CHR '' '' # re_sub m_spaces p (dropWhile is_space cs)"
      using True Cons by (simp add: m_spaces_Some drop_takeWhile_dropWhile)
    show ?thesis
    proof (cases "dropWhile is_space cs")
      case Nil
      then show ?thesis using r by (simp del: dropWhile_eq_Nil_conv)
    next
      case (Cons d ds)
      then have "\<not> is_space d"
        by (metis hd_dropWhile list.sel(1) list.distinct(1))
      then show ?thesis using r Cons by (simp add: m_spaces_None)
    qed
  qed
qed

lemma strip_truncated:
  assumes "length t > 150" and ok: "tl t = [] \<or> \<not> is_space (hd (tl t)) \<or> \<not> is_space (hd t)"
  shows "strip (take 147 t @ ''...'') = dropWhile is_space (take 147 t) @ ''...''
    \<and> length (strip (take 147 t @ ''...'')) = (if is_space (hd t) then 149 else 150)"
proof -
  obtain x y t' where t: "t = x # y # t'"
    using assms(1) by (cases t; cases "tl t") auto
  have dot: "\<not> is_space CHR ''.''" by (simp add: is_space_def)
  have l: "length (take 145 t') = 145" using assms(1) t by simp
  have tk: "take 147 t = x # y # take 145 t'"
    using t by (simp add: take_Cons')
  have rv: "\<And>u. rev (dropWhile is_space (rev (u @ ''...''))) = u @ ''...''"
    by (simp add: dot)
  have dw: "dropWhile is_space (take 147 t @ ''...'') = dropWhile is_space (take 147 t) @ ''...''"
    by (simp add: dropWhile_append dot)
  have s: "strip (take 147 t @ ''...'') = dropWhile is_space (take 147 t) @ ''...''"
    unfolding strip_def dw by (rule rv)
  show ?thesis
  proof (cases "is_space x")
    case False
    then show ?thesis using s tk l t by simp
  next
    case True
    then have "\<not> is_space y" using ok t by simp
    then show ?thesis using s tk l t True by simp
  qed
qed

text \<open>
  C7, as stated, fails: a description of 151 characters with a double space in it is
  emitted whole, with 150 characters and no ellipsis, because the length is tested after
  the white space has been collapsed.
\<close>

theorem description_not_cut_at_151:
  "length (replicate 75 CHR ''a'' @ ''  '' @ replicate 74 CHR ''b'') = 151
   \<and> clean_yaml_string (replicate 75 CHR ''a'' @ ''  '' @ replicate 74 CHR ''b'')
     = replicate 75 CHR ''a'' @ '' '' @ replicate 74 CHR ''b''"
  by code_simp


lemma length_escape_quotes:
  "length (str_replace [q] [b, q] s) = length s + count_list s q"
  by (induction s) auto

text \<open>
  C7, amended. In \<open>_clean_yaml_string\<close> the length test is made on the cleaned text: when
  that is longer than 150 characters, the emitted description is its first 147
  characters, less a leading white-space character, followed by \<open>...\<close>: 150 characters,
  149 when the cleaned text begins with white space; when the cleaned text has at most
  150 characters it is emitted stripped and not truncated. In \<open>add_frontmatter.py\<close> the
  length test applies to the line found, with \<open>*\<close>, \<open>_\<close> and the backquote removed: when it
  is longer than 150 characters it is cut to its first 147 characters and \<open>...\<close>, and the
  double quotes are escaped afterwards, so that the emitted description has 150
  characters and one more for each double quote kept; when it has 150 or fewer
  characters it is emitted without truncation, its double quotes escaped.
\<close>

theorem description_truncation:
  "(text \<noteq> [] \<and> length (yaml_cleaned text) > 150
      \<longrightarrow> clean_yaml_string text = dropWhile is_space (take 147 (yaml_cleaned text)) @ ''...''
        \<and> length (clean_yaml_string text) = (if is_space (hd (yaml_cleaned text)) then 149 else 150))
   \<and> (text \<noteq> [] \<and> length (yaml_cleaned text) \<le> 150
      \<longrightarrow> clean_yaml_string text = strip (yaml_cleaned text))
   \<and> (find (\<lambda>l. l \<noteq> [] \<and> \<not> prefix ''#'' l \<and> length l > 30) (map strip (split_nl content))
        = Some line
      \<and> length (filter (\<lambda>x. x \<notin> {CHR ''*'', CHR ''_'', btick}) line) > 150
      \<longrightarrow> md_description content
          = str_replace [dquote] [bslash, dquote]
              (take 147 (filter (\<lambda>x. x \<notin> {CHR ''*'', CHR ''_'', btick}) line) @ ''...'')
        \<and> length (md_description content)
          = 150 + count_list (take 147 (filter (\<lambda>x. x \<notin> {CHR ''*'', CHR ''_'', btick}) line)) dquote)
   \<and> (find (\<lambda>l. l \<noteq> [] \<and> \<not> prefix ''#'' l \<and> length l > 30) (map strip (split_nl content))
        = Some line
      \<and> length (filter (\<lambda>x. x \<notin> {CHR ''*'', CHR ''_'', btick}) line) \<le> 150
      \<longrightarrow> md_description content
          = str_replace [dquote] [bslash, dquote]
              (filter (\<lambda>x. x \<notin> {CHR ''*'', CHR ''_'', btick}) line))"
proof (intro conjI impI)
  assume a: "text \<noteq> [] \<and> length (yaml_cleaned text) > 150"
  let ?t = "yaml_cleaned text"
  have ne: "?t \<noteq> []" using a by auto
  have "is_space (hd ?t) \<Longrightarrow> tl ?t = [] \<or> \<not> is_space (hd (tl ?t))"
    using collapsed_head [of None] ne unfolding yaml_cleaned_def Let_def by blast
  then have ok: "tl ?t = [] \<or> \<not> is_space (hd (tl ?t)) \<or> \<not> is_space (hd ?t)"
    by blast
  have c: "clean_yaml_string text = strip (take 147 ?t @ ''...'')"
    using a by (simp add: clean_yaml_string_def Let_def)
  have both: "strip (take 147 ?t @ ''...'') = dropWhile is_space (take 147 ?t) @ ''...''
      \<and> length (strip (take 147 ?t @ ''...'')) = (if is_space (hd ?t) then 149 else 150)"
    using a ok by (intro strip_truncated) simp_all
  show "clean_yaml_string text = dropWhile is_space (take 147 ?t) @ ''...''"
    unfolding c using both by (rule conjunct1)
  show "length (clean_yaml_string text) = (if is_space (hd ?t) then 149 else 150)"
    unfolding c using both by (rule conjunct2)
next
  assume "text \<noteq> [] \<and> length (yaml_cleaned text) \<le> 150"
  then show "clean_yaml_string text = strip (yaml_cleaned text)"
    by (simp add: clean_yaml_string_def Let_def)
next
  let ?d = "filter (\<lambda>x. x \<notin> {CHR ''*'', CHR ''_'', btick}) line"
  assume a: "find (\<lambda>l. l \<noteq> [] \<and> \<not> prefix ''#'' l \<and> length l > 30) (map strip (split_nl content))
        = Some line \<and> length ?d > 150"
  then show m: "md_description content = str_replace [dquote] [bslash, dquote] (take 147 ?d @ ''...'')"
    by (simp add: md_description_def md_truncate_def Let_def)
  have "count_list ''...'' dquote = 0" by simp
  moreover have "length (take 147 ?d @ ''...'') = 150" using a by simp
  ultimately show "length (md_description content) = 150 + count_list (take 147 ?d) dquote"
    unfolding m length_escape_quotes by simp
next
  let ?d = "filter (\<lambda>x. x \<notin> {CHR ''*'', CHR ''_'', btick}) line"
  assume "find (\<lambda>l. l \<noteq> [] \<and> \<not> prefix ''#'' l \<and> length l > 30) (map strip (split_nl content))
        = Some line \<and> length ?d \<le> 150"
  then show "md_description content = str_replace [dquote] [bslash, dquote] ?d"
    by (simp add: md_description_def md_truncate_def Let_def)
qed

theorem description_truncation_witness:
  "clean_yaml_string (replicate 151 CHR ''a'') = replicate 147 CHR ''a'' @ ''...''
   \<and> length (clean_yaml_string (replicate 151 CHR ''a'')) = 150
   \<and> clean_yaml_string ''a  <b>note</b> '' = ''a note''
   \<and> md_description (replicate 75 CHR ''a'' @ [dquote] @ replicate 75 CHR ''b'')
      = replicate 75 CHR ''a'' @ [bslash, dquote] @ replicate 71 CHR ''b'' @ ''...''
   \<and> length (md_description (replicate 75 CHR ''a'' @ [dquote] @ replicate 75 CHR ''b'')) = 151
   \<and> md_description (replicate 75 CHR ''a'' @ [dquote] @ replicate 74 CHR ''b'')
      = replicate 75 CHR ''a'' @ [bslash, dquote] @ replicate 74 CHR ''b''
   \<and> clean_yaml_string (replicate 75 CHR ''a'' @ [CHR 0xA0, CHR 0xA0] @ replicate 74 CHR ''b'')
      = replicate 75 CHR ''a'' @ '' '' @ replicate 74 CHR ''b''"
proof -
  have y1: "yaml_cleaned (replicate 151 CHR ''a'') = replicate 151 CHR ''a''"
    by code_simp
  have y2: "yaml_cleaned ''a  <b>note</b> '' = ''a note ''"
    by code_simp
  let ?c = "replicate 75 CHR ''a'' @ [dquote] @ replicate 75 CHR ''b''"
  have f: "find (\<lambda>l. l \<noteq> [] \<and> \<not> prefix ''#'' l \<and> length l > 30) (map strip (split_nl ?c)) = Some ?c"
    by code_simp
  have g: "filter (\<lambda>x. x \<notin> {CHR ''*'', CHR ''_'', btick}) ?c = ?c"
    by code_simp
  have s: "str_replace [dquote] [bslash, dquote] (take 147 ?c @ ''...'')
      = replicate 75 CHR ''a'' @ [bslash, dquote] @ replicate 71 CHR ''b'' @ ''...''"
    by code_simp
  have n: "count_list (take 147 ?c) dquote = 1"
    by code_simp
  have d: "dropWhile is_space (take 147 (replicate 151 CHR ''a'')) = replicate 147 CHR ''a''"
    by code_simp
  have h: "\<not> is_space CHR ''a''"
    by (simp add: is_space_def)
  have st: "strip ''a note '' = ''a note''"
    by code_simp
  have 1: "clean_yaml_string (replicate 151 CHR ''a'') = replicate 147 CHR ''a'' @ ''...''
      \<and> length (clean_yaml_string (replicate 151 CHR ''a'')) = 150"
    using description_truncation [of "replicate 151 CHR ''a''" ?c ?c] by (simp add: y1 d h)
  have 2: "clean_yaml_string ''a  <b>note</b> '' = ''a note''"
    using description_truncation [of "''a  <b>note</b> ''" ?c ?c] by (simp add: y2 st)
  have 3: "md_description ?c = replicate 75 CHR ''a'' @ [bslash, dquote] @ replicate 71 CHR ''b'' @ ''...''
      \<and> length (md_description ?c) = 151"
    using description_truncation [of "''a''" ?c ?c] by (simp only: f g s n) simp
  let ?e = "replicate 75 CHR ''a'' @ [dquote] @ replicate 74 CHR ''b''"
  have f': "find (\<lambda>l. l \<noteq> [] \<and> \<not> prefix ''#'' l \<and> length l > 30) (map strip (split_nl ?e)) = Some ?e"
    by code_simp
  have g': "filter (\<lambda>x. x \<notin> {CHR ''*'', CHR ''_'', btick}) ?e = ?e"
    by code_simp
  have s': "str_replace [dquote] [bslash, dquote] ?e
      = replicate 75 CHR ''a'' @ [bslash, dquote] @ replicate 74 CHR ''b''"
    by code_simp
  have 4: "md_description ?e = replicate 75 CHR ''a'' @ [bslash, dquote] @ replicate 74 CHR ''b''"
    using description_truncation [of "''a''" ?e ?e] by (simp only: f' g' s') simp
  let ?n = "replicate 75 CHR ''a'' @ [CHR 0xA0, CHR 0xA0] @ replicate 74 CHR ''b''"
  have y5: "yaml_cleaned ?n = replicate 75 CHR ''a'' @ '' '' @ replicate 74 CHR ''b''"
    by code_simp
  have s5: "strip (replicate 75 CHR ''a'' @ '' '' @ replicate 74 CHR ''b'')
      = replicate 75 CHR ''a'' @ '' '' @ replicate 74 CHR ''b''"
    by code_simp
  have 5: "clean_yaml_string ?n = replicate 75 CHR ''a'' @ '' '' @ replicate 74 CHR ''b''"
    using description_truncation [of ?n ?c ?c] by (simp only: y5 s5) simp
  show ?thesis using 1 2 3 4 5 by blast
qed

section \<open>Batch drivers\<close>

text \<open>
  C5 at a batch of two files of which the first cannot be decoded. \<open>main\<close> of
  \<open>clean_mdx.py\<close> has no \<open>try\<close>: the exception leaves \<open>main\<close>, the second file is not
  cleaned and nothing after the first message is printed. \<open>main\<close> of
  \<open>fix_mdx_issues.py\<close>, on the same files, reports the first and fixes the second.
\<close>

theorem clean_main_aborts_at_first_failure:
  "fst (clean_main [''a.mdx'', ''b.mdx'']
          \<lparr>files = [''a.mdx'' \<mapsto> Undecodable, ''b.mdx'' \<mapsto> Text ''{x}''], console = []\<rparr>)
     = Some (UnicodeDecodeError ''a.mdx'')
   \<and> files (snd (clean_main [''a.mdx'', ''b.mdx'']
          \<lparr>files = [''a.mdx'' \<mapsto> Undecodable, ''b.mdx'' \<mapsto> Text ''{x}''], console = []\<rparr>))
        ''b.mdx'' = Some (Text ''{x}'')
   \<and> console (snd (clean_main [''a.mdx'', ''b.mdx'']
          \<lparr>files = [''a.mdx'' \<mapsto> Undecodable, ''b.mdx'' \<mapsto> Text ''{x}''], console = []\<rparr>))
       = [Cleaning_files 2]
   \<and> files (fix_main [''a.mdx'', ''b.mdx'']
          \<lparr>files = [''a.mdx'' \<mapsto> Undecodable, ''b.mdx'' \<mapsto> Text ''{x}''], console = []\<rparr>)
        ''b.mdx'' = Some (Text [bslash, CHR ''{'', CHR ''x'', bslash, CHR ''}''])"
  by code_simp

section \<open>Code blocks in \<open>fix_mdx_issues.py\<close> and \<open>clean_mdx.py\<close>\<close>

text \<open>
  C2 at a fenced block that stands between two single backquotes of the prose. In
  \<open>fix_mdx_issues\<close> the fenced block is saved first; then the inline pattern matches from
  the first backquote to the second, across the placeholder, and that match is saved as
  block 1. The blocks are restored in the order 0, 1: when block 0 is looked for, its
  placeholder is inside the saved block 1 and not in the content, so the fenced block and
  its brace are lost and the text \<open>__CODE_BLOCK_0__\<close> is left in the output. In
  \<open>escape_braces_outside_code\<close> the flag \<open>in_inline_code\<close> is not reset at the end of a
  line: after a single backquote the braces of the following lines are not escaped.
\<close>

theorem fenced_block_lost_between_backquotes:
  "protect_escape_restore ''x`y\<newline>```\<newline>{\<newline>```\<newline>z`w'' = ''x`y\<newline>__CODE_BLOCK_0__\<newline>z`w''
   \<and> fst (fix_mdx_issues_content ''x`y\<newline>```\<newline>{\<newline>```\<newline>z`w'') = ''x`y\<newline>__CODE_BLOCK_0__\<newline>z`w''
   \<and> escape_braces_outside_code ''a ` b\<newline>{x}\<newline>```\<newline>{\<newline>```'' = ''a ` b\<newline>{x}\<newline>```\<newline>{\<newline>```''"
  by code_simp

text \<open>
  C10 at texts that contain no placeholder. In the first, a fenced block stands between
  two single backquotes: it is saved as block 0, the inline pattern then saves the text
  from the first backquote to the second, placeholder included, as block 1, and the
  loop that restores the blocks in the order 0, 1 finds no placeholder of block 0 in the
  content: the fenced block is not reproduced and \<open>__CODE_BLOCK_0__\<close> is left in the
  output. In the second, the placeholders of two neighbouring inline spans and the word
  \<open>CODE_BLOCK_0\<close> between them form a second occurrence of the placeholder of block 0:
  block 0 is written twice and blocks 1 and 2 are not reproduced. The last text has the
  placeholder of block 0 in its prose, and the saved block is written there too.
\<close>

theorem round_trip_fails_without_placeholder:
  "\<not> sublist ''__CODE_BLOCK_'' ''a ` b ```c``` d ` e''
   \<and> save_code_blocks ''a ` b ```c``` d ` e''
       = (''a __CODE_BLOCK_1__ e'', [''```c```'', ''` b __CODE_BLOCK_0__ d `''])
   \<and> restore_from 0 [''```c```'', ''` b __CODE_BLOCK_0__ d `''] ''a __CODE_BLOCK_1__ e''
       = ''a ` b __CODE_BLOCK_0__ d ` e''
   \<and> protect_escape_restore ''a ` b ```c``` d ` e'' = ''a ` b __CODE_BLOCK_0__ d ` e''
   \<and> \<not> sublist ''__CODE_BLOCK_'' ''`a``b`CODE_BLOCK_0`c`''
   \<and> save_code_blocks ''`a``b`CODE_BLOCK_0`c`''
       = (''__CODE_BLOCK_0____CODE_BLOCK_1__CODE_BLOCK_0__CODE_BLOCK_2__'', [''`a`'', ''`b`'', ''`c`''])
   \<and> protect_escape_restore ''`a``b`CODE_BLOCK_0`c`'' = ''`a`__CODE_BLOCK_1`a`CODE_BLOCK_2__''
   \<and> protect_escape_restore ''see __CODE_BLOCK_0__ and `x`'' = ''see `x` and `x`''"
  by code_simp

section \<open>Angle brackets\<close>

lemma next_char_conv: "(case cs of [] \<Rightarrow> False | d # x \<Rightarrow> is_alpha d \<or> d = CHR ''/'' \<or> d = CHR ''!'')
    = opens_tag (case cs of [] \<Rightarrow> None | d # _ \<Rightarrow> Some d)"
  by (cases cs) (simp_all add: opens_tag_def)

lemma m_lt_step:
  "m_lt prev (c # cs) =
     (if c = CHR ''<'' \<and> \<not> opens_tag (case cs of [] \<Rightarrow> None | d # _ \<Rightarrow> Some d)
      then Some (''&lt;'', 0) else None)"
  by (simp add: m_lt_def next_char_conv)

lemma lt_only_step:
  "rewrite_by_neighbours lt_only before (c # cs) =
     (if c = CHR ''<'' \<and> \<not> opens_tag (case cs of [] \<Rightarrow> None | d # _ \<Rightarrow> Some d)
      then ''&lt;'' else [c]) @ rewrite_by_neighbours lt_only (Some c) cs"
  by (simp add: lt_only_def)

lemma claimed_angle_step:
  "rewrite_by_neighbours claimed_angle before (c # cs) =
     (if c = CHR ''<'' \<and> \<not> opens_tag (case cs of [] \<Rightarrow> None | d # _ \<Rightarrow> Some d) then ''&lt;''
      else if c = CHR ''>'' \<and> \<not> is_letter before
              \<and> \<not> is_letter (case cs of [] \<Rightarrow> None | d # _ \<Rightarrow> Some d) then ''&gt;''
      else [c])
     @ rewrite_by_neighbours claimed_angle (Some c) cs"
  by (simp add: claimed_angle_def)

lemma notebook_angle_step:
  "rewrite_by_neighbours notebook_angle before (c # cs) =
     (if c = CHR ''<'' \<and> \<not> opens_tag (case cs of [] \<Rightarrow> None | d # _ \<Rightarrow> Some d) then ''&lt;''
      else if c = CHR ''>'' \<and> \<not> is_letter before then ''&gt;''
      else [c])
     @ rewrite_by_neighbours notebook_angle (Some c) cs"
  by (simp add: notebook_angle_def)

lemma re_sub_lt_same: "re_sub m_lt prev s = rewrite_by_neighbours lt_only prev s"
proof (induction s arbitrary: prev)
  case Nil
  show ?case by simp
next
  case (Cons c cs)
  show ?case
    by (simp add: m_lt_step lt_only_step Cons del: rewrite_by_neighbours.simps)
qed

lemma lt_only_before:
  "rewrite_by_neighbours lt_only before s = rewrite_by_neighbours lt_only before' s"
  by (cases s) (simp_all add: lt_only_def)

lemma re_sub_lt: "re_sub m_lt prev s = rewrite_by_neighbours lt_only before s"
  using re_sub_lt_same [of prev s] lt_only_before [of prev s before] by simp

lemma not_alpha_punct:
  "\<not> is_alpha CHR ''&''" "\<not> is_alpha CHR '';''" "\<not> is_alpha CHR ''<''" "\<not> is_alpha CHR ''>''"
  by (simp_all add: is_alpha_def)

lemma lt_only_head:
  "is_letter (case rewrite_by_neighbours lt_only before cs of [] \<Rightarrow> None | d # _ \<Rightarrow> Some d)
   = is_letter (case cs of [] \<Rightarrow> None | d # _ \<Rightarrow> Some d)"
  by (cases cs) (auto simp: lt_only_def is_letter_def not_alpha_punct)

lemma m_gt_both_other: "c \<noteq> CHR ''>'' \<Longrightarrow> m_gt_both prev (c # cs) = None"
  by (simp add: m_gt_both_def)

lemma m_gt_other: "c \<noteq> CHR ''>'' \<Longrightarrow> m_gt prev (c # cs) = None"
  by (simp add: m_gt_def)

lemma m_gt_both_gt:
  "m_gt_both prev (CHR ''>'' # cs) =
     (if \<not> is_letter prev \<and> \<not> is_letter (case cs of [] \<Rightarrow> None | d # _ \<Rightarrow> Some d)
      then Some (''&gt;'', 0) else None)"
  by (cases cs; cases prev) (simp_all add: m_gt_both_def is_letter_def)

lemma m_gt_gt:
  "m_gt prev (CHR ''>'' # cs) = (if \<not> is_letter prev then Some (''&gt;'', 0) else None)"
  by (cases prev) (simp_all add: m_gt_def is_letter_def)

lemma gt_both_after_lt:
  "is_letter prev = is_letter before \<Longrightarrow>
   re_sub m_gt_both prev (rewrite_by_neighbours lt_only before s)
     = rewrite_by_neighbours claimed_angle before s"
proof (induction s arbitrary: prev before)
  case Nil
  show ?case by simp
next
  case (Cons c cs)
  let ?R = "rewrite_by_neighbours lt_only (Some c) cs"
  let ?after = "case cs of [] \<Rightarrow> None | d # _ \<Rightarrow> Some d"
  consider (lt) "c = CHR ''<''" "\<not> opens_tag ?after" | (gt) "c = CHR ''>''"
    | (other) "c \<noteq> CHR ''>''" "\<not> (c = CHR ''<'' \<and> \<not> opens_tag ?after)"
    by blast
  then show ?case
  proof cases
    case lt
    have "re_sub m_gt_both (Some CHR '';'') ?R = rewrite_by_neighbours claimed_angle (Some c) cs"
      using lt by (intro Cons.IH) (simp add: is_letter_def not_alpha_punct)
    then show ?thesis
      using lt by (simp add: lt_only_step claimed_angle_step m_gt_both_other
          del: rewrite_by_neighbours.simps)
  next
    case gt
    have ih: "re_sub m_gt_both (Some CHR ''>'') ?R = rewrite_by_neighbours claimed_angle (Some c) cs"
      using gt by (intro Cons.IH) simp
    show ?thesis
      using gt ih Cons.prems lt_only_head [of "Some c" cs]
      by (simp add: lt_only_step claimed_angle_step m_gt_both_gt
          del: rewrite_by_neighbours.simps)
  next
    case other
    have ih: "re_sub m_gt_both (Some c) ?R = rewrite_by_neighbours claimed_angle (Some c) cs"
      by (intro Cons.IH) simp
    show ?thesis
      using other ih by (auto simp: lt_only_step claimed_angle_step m_gt_both_other
          simp del: rewrite_by_neighbours.simps)
  qed
qed

lemma gt_after_lt:
  "is_letter prev = is_letter before \<Longrightarrow>
   re_sub m_gt prev (rewrite_by_neighbours lt_only before s)
     = rewrite_by_neighbours notebook_angle before s"
proof (induction s arbitrary: prev before)
  case Nil
  show ?case by simp
next
  case (Cons c cs)
  let ?R = "rewrite_by_neighbours lt_only (Some c) cs"
  let ?after = "case cs of [] \<Rightarrow> None | d # _ \<Rightarrow> Some d"
  consider (lt) "c = CHR ''<''" "\<not> opens_tag ?after" | (gt) "c = CHR ''>''"
    | (other) "c \<noteq> CHR ''>''" "\<not> (c = CHR ''<'' \<and> \<not> opens_tag ?after)"
    by blast
  then show ?case
  proof cases
    case lt
    have "re_sub m_gt (Some CHR '';'') ?R = rewrite_by_neighbours notebook_angle (Some c) cs"
      using lt by (intro Cons.IH) (simp add: is_letter_def not_alpha_punct)
    then show ?thesis
      using lt by (simp add: lt_only_step notebook_angle_step m_gt_other
          del: rewrite_by_neighbours.simps)
  next
    case gt
    have ih: "re_sub m_gt (Some CHR ''>'') ?R = rewrite_by_neighbours notebook_angle (Some c) cs"
      using gt by (intro Cons.IH) simp
    show ?thesis
      using gt ih Cons.prems
      by (simp add: lt_only_step notebook_angle_step m_gt_gt
          del: rewrite_by_neighbours.simps)
  next
    case other
    have ih: "re_sub m_gt (Some c) ?R = rewrite_by_neighbours notebook_angle (Some c) cs"
      by (intro Cons.IH) simp
    show ?thesis
      using other ih by (auto simp: lt_only_step notebook_angle_step m_gt_other
          simp del: rewrite_by_neighbours.simps)
  qed
qed

lemma fix_mdx_angles_claimed: "fix_mdx_angles s = rewrite_by_neighbours claimed_angle None s"
  unfolding fix_mdx_angles_def re_sub_lt [of None s None]
  by (rule gt_both_after_lt) simp

lemma notebook_angles: "re_sub m_gt None (re_sub m_lt None s) = rewrite_by_neighbours notebook_angle None s"
  unfolding re_sub_lt [of None s None]
  by (rule gt_after_lt) simp


lemma re_sub_no_match:
  "(\<And>t p. suffix t s \<Longrightarrow> m p t = None) \<Longrightarrow> re_sub m prev s = s"
proof (induction s arbitrary: prev)
  case Nil
  show ?case by simp
next
  case (Cons c cs)
  have "m prev (c # cs) = None"
    using Cons.prems [of "c # cs" prev] by simp
  moreover have "re_sub m (Some c) cs = cs"
    using Cons.prems by (intro Cons.IH) (simp add: suffix_Cons)
  ultimately show ?case by simp
qed

lemma http_scheme_None:
  assumes "\<not> prefix ''http'' u"
  shows "http_scheme u = None"
proof -
  have "prefix ''http'' ''https://''" and "prefix ''http'' ''http://''"
    by simp_all
  then have "\<not> prefix ''https://'' u" and "\<not> prefix ''http://'' u"
    using assms prefix_order.trans by blast+
  then show ?thesis
    by (simp add: http_scheme_def)
qed

lemma no_http_in_suffix:
  assumes "\<not> sublist ''http'' s" "suffix t s"
  shows "\<not> prefix ''http'' t"
  using assms unfolding sublist_def suffix_def prefix_def by auto

lemma no_http_in_tail:
  assumes "\<not> sublist ''http'' s" "suffix t s"
  shows "\<not> prefix ''http'' (tl t)"
proof (cases t)
  case Nil
  then show ?thesis by simp
next
  case (Cons c cs)
  then have "suffix cs s" using assms(2) by (meson suffix_ConsD)
  then show ?thesis using no_http_in_suffix [OF assms(1)] Cons by simp
qed

lemma m_angle_url_None: "http_scheme (tl t) = None \<Longrightarrow> m_angle_url p t = None"
  by (cases t) (simp_all add: m_angle_url_def)

lemma m_bare_url_None: "http_scheme t = None \<Longrightarrow> m_bare_url r p t = None"
  by (simp add: m_bare_url_def)

lemma angle_url_no_http: "\<not> sublist ''http'' s \<Longrightarrow> re_sub m_angle_url prev s = s"
  by (intro re_sub_no_match m_angle_url_None http_scheme_None no_http_in_tail)

lemma bare_url_no_http: "\<not> sublist ''http'' s \<Longrightarrow> re_sub (m_bare_url r) prev s = s"
  by (intro re_sub_no_match m_bare_url_None http_scheme_None no_http_in_suffix)

lemma notebook_angle_piece:
  "notebook_angle b c a = [c] \<or> notebook_angle b c a = ''&lt;'' \<or> notebook_angle b c a = ''&gt;''"
  by (simp add: notebook_angle_def)

lemma prefix_notebook_angle:
  "prefix w (rewrite_by_neighbours notebook_angle b s) \<Longrightarrow> CHR ''&'' \<notin> set w \<Longrightarrow> prefix w s"
proof (induction w arbitrary: b s)
  case Nil
  show ?case by simp
next
  case (Cons x w)
  show ?case
  proof (cases s)
    case Nil
    then show ?thesis using Cons.prems by simp
  next
    case (Cons c cs)
    let ?a = "case cs of [] \<Rightarrow> None | d # _ \<Rightarrow> Some d"
    have "notebook_angle b c ?a = [c]"
      using notebook_angle_piece [of b c ?a] Cons.prems Cons by auto
    then have "x = c" and "prefix w (rewrite_by_neighbours notebook_angle (Some c) cs)"
      using Cons.prems(1) Cons by simp_all
    then show ?thesis
      using Cons.IH [of "Some c" cs] Cons.prems(2) Cons by simp
  qed
qed

lemma no_http_notebook_angle:
  "\<not> sublist ''http'' s \<Longrightarrow> \<not> sublist ''http'' (rewrite_by_neighbours notebook_angle b s)"
proof (induction s arbitrary: b)
  case Nil
  show ?case by simp
next
  case (Cons c cs)
  let ?a = "case cs of [] \<Rightarrow> None | d # _ \<Rightarrow> Some d"
  let ?R = "rewrite_by_neighbours notebook_angle (Some c) cs"
  have cs: "\<not> sublist ''http'' cs" and pre: "\<not> prefix ''http'' (c # cs)"
    using Cons.prems by (auto simp: sublist_Cons_right)
  have R: "\<not> sublist ''http'' ?R"
    using cs by (rule Cons.IH)
  have unit: "\<not> prefix ''http'' (c # ?R)"
  proof
    assume "prefix ''http'' (c # ?R)"
    then have "c = CHR ''h''" and "prefix ''ttp'' ?R" by simp_all
    then have "prefix ''ttp'' cs"
      using prefix_notebook_angle [of "''ttp''" "Some c" cs] by simp
    then show False using pre \<open>c = CHR ''h''\<close> by simp
  qed
  show ?case
    using notebook_angle_piece [of b c ?a] R unit
    by (auto simp: sublist_Cons_right)
qed

text \<open>
  C6, as stated, fails for \<open>_fix_mdx_syntax\<close>: a \<open>>\<close> that is followed by a letter and not
  preceded by one is replaced.
\<close>

theorem gt_before_letter_is_escaped:
  "fix_mdx_syntax '' >a'' = '' &gt;a''"
  by code_simp

text \<open>
  C6, amended. In \<open>fix_mdx.py\<close> the two substitutions rewrite every character as the claim
  says: \<open><\<close> becomes \<open>&lt;\<close> unless a letter, \<open>/\<close> or \<open>!\<close> follows, \<open>>\<close> becomes \<open>&gt;\<close>
  exactly when neither neighbour is a letter. In \<open>_fix_mdx_syntax\<close>, on a text without
  \<open>http\<close> (no URL to rewrite), \<open><\<close> is treated in the same way and \<open>>\<close> becomes \<open>&gt;\<close>
  exactly when the character before it is not a letter, whatever follows.
\<close>

theorem angle_brackets_by_neighbours:
  "fix_mdx_angles content = rewrite_by_neighbours claimed_angle None content
   \<and> (\<not> sublist ''http'' content
      \<longrightarrow> fix_mdx_syntax content = rewrite_by_neighbours notebook_angle None content)"
proof (intro conjI impI)
  show "fix_mdx_angles content = rewrite_by_neighbours claimed_angle None content"
    by (rule fix_mdx_angles_claimed)
next
  assume h: "\<not> sublist ''http'' content"
  have "\<not> sublist ''http'' (rewrite_by_neighbours notebook_angle None content)"
    using h by (rule no_http_notebook_angle)
  then show "fix_mdx_syntax content = rewrite_by_neighbours notebook_angle None content"
    by (simp add: fix_mdx_syntax_def angle_url_no_http [OF h] notebook_angles bare_url_no_http)
qed

theorem angle_brackets_by_neighbours_witness:
  "fix_mdx_angles ''a < b >c> <i>'' = ''a &lt; b >c> <i>''
   \<and> fix_mdx_syntax ''a < b >c> <i>'' = ''a &lt; b &gt;c> <i>''"
proof -
  have n: "\<not> sublist ''http'' ''a < b >c> <i>''"
    by (simp add: sublist_code)
  have 1: "rewrite_by_neighbours claimed_angle None ''a < b >c> <i>'' = ''a &lt; b >c> <i>''"
    by code_simp
  have 2: "rewrite_by_neighbours notebook_angle None ''a < b >c> <i>'' = ''a &lt; b &gt;c> <i>''"
    by code_simp
  show ?thesis
    using angle_brackets_by_neighbours [of "''a < b >c> <i>''"] n by (simp only: 1 2) simp
qed

section \<open>The brace pass applied twice\<close>

lemma split_nl_not_Nil: "split_nl t \<noteq> []"
  by (induction t) (auto split: list.splits)

lemma join_split_nl: "join_nl (split_nl t) = t"
proof (induction t)
  case Nil
  show ?case by simp
next
  case (Cons c t)
  obtain l ls where s: "split_nl t = l # ls"
    using split_nl_not_Nil [of t] by (cases "split_nl t") auto
  show ?case
    using Cons s by (cases ls) auto
qed

lemma split_nl_no_nl: "l \<in> set (split_nl t) \<Longrightarrow> nl \<notin> set l"
proof (induction t arbitrary: l)
  case Nil
  then show ?case by simp
next
  case (Cons c t)
  obtain k ks where s: "split_nl t = k # ks"
    using split_nl_not_Nil [of t] by (cases "split_nl t") auto
  show ?case
    using Cons s by (auto split: if_splits)
qed

lemma split_nl_line: "nl \<notin> set x \<Longrightarrow> split_nl x = [x]"
  by (induction x) auto

lemma split_nl_append: "nl \<notin> set x \<Longrightarrow> split_nl (x @ nl # rest) = x # split_nl rest"
  by (induction x) auto

lemma split_join_nl:
  "ls \<noteq> [] \<Longrightarrow> \<forall>l\<in>set ls. nl \<notin> set l \<Longrightarrow> split_nl (join_nl ls) = ls"
proof (induction ls rule: join_nl.induct)
  case 1
  then show ?case by simp
next
  case (2 x)
  then show ?case by (simp add: split_nl_line)
next
  case (3 x y ys)
  then show ?case by (simp add: split_nl_append)
qed

declare escape_chars.simps(2) [simp del]

lemma fst_escape_chars_Cons:
  "fst (escape_chars q (c # cs)) =
     (if c = btick then c # fst (escape_chars (\<not> q) cs)
      else if \<not> q \<and> c = CHR ''{'' then bslash # CHR ''{'' # fst (escape_chars q cs)
      else if \<not> q \<and> c = CHR ''}'' then bslash # CHR ''}'' # fst (escape_chars q cs)
      else c # fst (escape_chars q cs))"
  by (simp add: escape_chars.simps(2) case_prod_beta)

lemma snd_escape_chars_Cons:
  "snd (escape_chars q (c # cs)) =
     (if c = btick then snd (escape_chars (\<not> q) cs) else snd (escape_chars q cs))"
  by (simp add: escape_chars.simps(2) case_prod_beta)

lemma escape_chars_length: "length l \<le> length (fst (escape_chars q l))"
proof (induction l arbitrary: q)
  case Nil
  show ?case by simp
next
  case (Cons c l)
  show ?case
    using Cons [of q] Cons [of "\<not> q"] by (cases q; simp add: fst_escape_chars_Cons)
qed

lemma escape_chars_same_length:
  "length (fst (escape_chars q l)) = length l \<Longrightarrow> fst (escape_chars q l) = l"
proof (induction l arbitrary: q)
  case Nil
  show ?case by simp
next
  case (Cons c l)
  show ?case
    using Cons.prems Cons.IH [of q] Cons.IH [of "\<not> q"] escape_chars_length [of l q]
    by (cases q; simp add: fst_escape_chars_Cons split: if_splits)
qed

lemma escape_chars_state:
  "snd (escape_chars q (fst (escape_chars q l))) = snd (escape_chars q l)"
proof (induction l arbitrary: q)
  case Nil
  show ?case by simp
next
  case (Cons c l)
  show ?case
    using Cons [of q] Cons [of "\<not> q"]
    by (cases q; simp add: fst_escape_chars_Cons snd_escape_chars_Cons)
qed

lemma escape_chars_twice_length:
  "length (fst (escape_chars q (fst (escape_chars q l)))) + length l
     = 2 * length (fst (escape_chars q l))"
proof (induction l arbitrary: q)
  case Nil
  show ?case by simp
next
  case (Cons c l)
  show ?case
    using Cons [of q] Cons [of "\<not> q"]
    by (cases q; simp add: fst_escape_chars_Cons)
qed

lemma escape_chars_no_nl: "nl \<notin> set l \<Longrightarrow> nl \<notin> set (fst (escape_chars q l))"
proof (induction l arbitrary: q)
  case Nil
  show ?case by simp
next
  case (Cons c l)
  show ?case
    using Cons.prems Cons.IH [of q] Cons.IH [of "\<not> q"]
    by (cases q; simp add: fst_escape_chars_Cons)
qed

lemma prefix_rstrip:
  "\<forall>x\<in>set w. \<not> P x \<Longrightarrow> prefix w (rev (dropWhile P (rev xs))) = prefix w xs"
proof (induction xs rule: rev_induct)
  case Nil
  show ?case by simp
next
  case (snoc x xs)
  show ?case
  proof (cases "P x")
    case False
    then show ?thesis by simp
  next
    case True
    then have "w \<noteq> xs @ [x]" using snoc.prems by auto
    then show ?thesis
      using True snoc by (simp add: prefix_snoc)
  qed
qed

lemma not_space_btick: "\<not> is_space btick"
  by (simp add: is_space_def)

lemma not_space_bslash: "\<not> is_space bslash"
  by (simp add: is_space_def)

lemma is_fence_lstrip: "is_fence l = prefix ''```'' (dropWhile is_space l)"
  unfolding is_fence_def strip_def
  by (rule prefix_rstrip) (simp add: not_space_btick)

lemma escape_chars_ticks:
  "prefix (replicate n btick) (fst (escape_chars q l)) = prefix (replicate n btick) l"
proof (induction n arbitrary: q l)
  case 0
  show ?case by simp
next
  case (Suc n)
  show ?case
  proof (cases l)
    case Nil
    then show ?thesis by simp
  next
    case (Cons c cs)
    then show ?thesis
      using Suc [of "\<not> q" cs] by (cases q; simp add: fst_escape_chars_Cons)
  qed
qed

lemma three_ticks: "''```'' = replicate 3 btick"
  by (simp add: eval_nat_numeral)

lemma escape_chars_fence: "is_fence (fst (escape_chars q l)) = is_fence l"
  unfolding is_fence_lstrip
proof (induction l arbitrary: q)
  case Nil
  show ?case by simp
next
  case (Cons c l)
  show ?case
  proof (cases "is_space c")
    case True
    then have "c \<noteq> btick" "c \<noteq> CHR ''{''" "c \<noteq> CHR ''}''"
      by (auto simp: is_space_def)
    then show ?thesis
      using True Cons [of q] by (cases q; simp add: fst_escape_chars_Cons)
  next
    case False
    have "\<not> is_space (hd (fst (escape_chars q (c # l))))"
      using False by (simp add: fst_escape_chars_Cons not_space_bslash not_space_btick)
    moreover have "fst (escape_chars q (c # l)) \<noteq> []"
      by (simp add: fst_escape_chars_Cons)
    ultimately have "dropWhile is_space (fst (escape_chars q (c # l))) = fst (escape_chars q (c # l))"
      by (cases "fst (escape_chars q (c # l))") simp_all
    then show ?thesis
      using False escape_chars_ticks [of 3 q "c # l"] by (simp add: three_ticks)
  qed
qed


declare escape_lines.simps(2) [simp del]

lemma escape_lines_Cons:
  "escape_lines b q (line # lines) =
     (if is_fence line then line # escape_lines (\<not> b) q lines
      else if b then line # escape_lines b q lines
      else fst (escape_chars q line) # escape_lines b (snd (escape_chars q line)) lines)"
  by (simp add: escape_lines.simps(2) case_prod_beta)

lemma escape_lines_length: "length (escape_lines b q ls) = length ls"
  by (induction ls arbitrary: b q) (simp_all add: escape_lines_Cons)

lemma escape_lines_total:
  "sum_list (map length ls) \<le> sum_list (map length (escape_lines b q ls))"
proof (induction ls arbitrary: b q)
  case Nil
  show ?case by simp
next
  case (Cons l ls)
  show ?case
    using Cons [of "\<not> b" q] Cons [of b q] Cons [of b "snd (escape_chars q l)"]
      escape_chars_length [of l q]
    by (cases b; simp add: escape_lines_Cons)
qed

lemma escape_lines_same_total:
  "sum_list (map length (escape_lines b q ls)) = sum_list (map length ls) \<Longrightarrow>
   escape_lines b q ls = ls"
proof (induction ls arbitrary: b q)
  case Nil
  show ?case by simp
next
  case (Cons l ls)
  show ?case
  proof (cases "is_fence l \<or> b")
    case True
    then show ?thesis
      using Cons.prems Cons.IH [of "\<not> b" q] Cons.IH [of b q]
      by (auto simp: escape_lines_Cons)
  next
    case False
    let ?q = "snd (escape_chars q l)"
    have t: "length (fst (escape_chars q l)) + sum_list (map length (escape_lines b ?q ls))
        = length l + sum_list (map length ls)"
      using False Cons.prems by (simp add: escape_lines_Cons)
    have 1: "length (fst (escape_chars q l)) = length l"
      using t escape_chars_length [of l q] escape_lines_total [of ls b ?q] by linarith
    have 2: "sum_list (map length (escape_lines b ?q ls)) = sum_list (map length ls)"
      using t 1 by linarith
    show ?thesis
      using False escape_chars_same_length [OF 1] Cons.IH [OF 2]
      by (simp add: escape_lines_Cons)
  qed
qed

lemma escape_lines_twice_total:
  "sum_list (map length (escape_lines b q (escape_lines b q ls))) + sum_list (map length ls)
     = 2 * sum_list (map length (escape_lines b q ls))"
proof (induction ls arbitrary: b q)
  case Nil
  show ?case by simp
next
  case (Cons l ls)
  show ?case
  proof (cases "is_fence l \<or> b")
    case True
    then show ?thesis
      using Cons [of "\<not> b" q] Cons [of b q]
      by (auto simp: escape_lines_Cons)
  next
    case False
    let ?q = "snd (escape_chars q l)"
    show ?thesis
      using False Cons [of b ?q] escape_chars_twice_length [of q l]
      by (simp add: escape_lines_Cons escape_chars_fence escape_chars_state)
  qed
qed

lemma escape_lines_no_nl:
  "\<forall>l\<in>set ls. nl \<notin> set l \<Longrightarrow> \<forall>l\<in>set (escape_lines b q ls). nl \<notin> set l"
proof (induction ls arbitrary: b q)
  case Nil
  show ?case by simp
next
  case (Cons l ls)
  then show ?case
    by (simp add: escape_lines_Cons escape_chars_no_nl)
qed

lemma escape_lines_not_Nil: "ls \<noteq> [] \<Longrightarrow> escape_lines b q ls \<noteq> []"
  using escape_lines_length [of b q ls] by auto

lemma escape_braces_twice:
  "escape_braces_outside_code (escape_braces_outside_code t)
     = join_nl (escape_lines False False (escape_lines False False (split_nl t)))"
proof -
  let ?ls = "escape_lines False False (split_nl t)"
  have "?ls \<noteq> []"
    by (rule escape_lines_not_Nil) (rule split_nl_not_Nil)
  moreover have "\<forall>l\<in>set ?ls. nl \<notin> set l"
    by (rule escape_lines_no_nl) (simp add: split_nl_no_nl)
  ultimately have "split_nl (join_nl ?ls) = ?ls"
    by (rule split_join_nl)
  then show ?thesis
    by (simp add: escape_braces_outside_code_def)
qed

lemma join_nl_inject:
  assumes "join_nl xs = join_nl ys" "xs \<noteq> []" "ys \<noteq> []"
    and "\<forall>l\<in>set xs. nl \<notin> set l" "\<forall>l\<in>set ys. nl \<notin> set l"
  shows "xs = ys"
  using assms split_join_nl [of xs] split_join_nl [of ys] by metis

lemma second_pass_changes_iff_first_did:
  "(escape_braces_outside_code (escape_braces_outside_code t) = escape_braces_outside_code t)
     = (escape_braces_outside_code t = t)"
proof -
  let ?l0 = "split_nl t"
  let ?l1 = "escape_lines False False ?l0"
  let ?l2 = "escape_lines False False ?l1"
  have n0: "?l0 \<noteq> []" by (rule split_nl_not_Nil)
  have n1: "?l1 \<noteq> []" using n0 by (rule escape_lines_not_Nil)
  have n2: "?l2 \<noteq> []" using n1 by (rule escape_lines_not_Nil)
  have f0: "\<forall>l\<in>set ?l0. nl \<notin> set l" by (simp add: split_nl_no_nl)
  have f1: "\<forall>l\<in>set ?l1. nl \<notin> set l" using f0 by (rule escape_lines_no_nl)
  have f2: "\<forall>l\<in>set ?l2. nl \<notin> set l" using f1 by (rule escape_lines_no_nl)
  have tot: "sum_list (map length ?l2) + sum_list (map length ?l0) = 2 * sum_list (map length ?l1)"
    by (rule escape_lines_twice_total)
  have "(escape_braces_outside_code (escape_braces_outside_code t) = escape_braces_outside_code t)
      = (join_nl ?l2 = join_nl ?l1)"
    by (simp add: escape_braces_twice) (simp add: escape_braces_outside_code_def)
  also have "\<dots> = (?l2 = ?l1)"
    using join_nl_inject [OF _ n2 n1 f2 f1] by auto
  also have "\<dots> = (sum_list (map length ?l2) = sum_list (map length ?l1))"
    using escape_lines_same_total [of False False ?l1] by auto
  also have "\<dots> = (sum_list (map length ?l1) = sum_list (map length ?l0))"
    using tot by linarith
  also have "\<dots> = (?l1 = ?l0)"
    using escape_lines_same_total [of False False ?l0] by auto
  also have "\<dots> = (join_nl ?l1 = join_nl ?l0)"
    using join_nl_inject [OF _ n1 n0 f1 f0] by auto
  also have "\<dots> = (escape_braces_outside_code t = t)"
    by (simp add: escape_braces_outside_code_def join_split_nl)
  finally show ?thesis .
qed



lemma concat_singletons: "concat (map (\<lambda>j. [l ! j]) [0..<length l]) = l"
proof -
  have "concat (map (\<lambda>j. [l ! j]) [0..<length l])
      = concat (map (\<lambda>x. [x]) (map (\<lambda>j. l ! j) [0..<length l]))"
    by (simp add: o_def)
  also have "\<dots> = concat (map (\<lambda>x. [x]) l)"
    by (simp only: map_nth)
  also have "\<dots> = l"
    by (induction l) simp_all
  finally show ?thesis .
qed

lemma snd_escape_chars: "snd (escape_chars q l) = (q \<noteq> odd (count_list l btick))"
proof (induction l arbitrary: q)
  case Nil
  show ?case by simp
next
  case (Cons c l)
  show ?case
    using Cons [of q] Cons [of "\<not> q"]
    by (cases q; simp add: snd_escape_chars_Cons)
qed

lemma fst_escape_chars_twice_Cons:
  "fst (escape_chars q (fst (escape_chars q (c # l)))) =
     (if (c = CHR ''{'' \<or> c = CHR ''}'') \<and> \<not> q then [bslash, bslash, c] else [c])
     @ fst (escape_chars (if c = btick then \<not> q else q)
              (fst (escape_chars (if c = btick then \<not> q else q) l)))"
  by (cases q; simp add: fst_escape_chars_Cons)

lemma chars_by_position:
  assumes nil: "\<And>q. E q [] = []"
    and step: "\<And>q c l. E q (c # l) =
        (if (c = CHR ''{'' \<or> c = CHR ''}'') \<and> \<not> q then replicate k bslash @ [c] else [c])
        @ E (if c = btick then \<not> q else q) l"
  shows "E (odd n) l =
     concat (map (\<lambda>j. if (l ! j = CHR ''{'' \<or> l ! j = CHR ''}'')
                          \<and> \<not> odd (n + count_list (take j l) btick)
                       then replicate k bslash @ [l ! j] else [l ! j]) [0..<length l])"
proof (induction l arbitrary: n)
  case Nil
  show ?case by (simp add: nil)
next
  case (Cons c l)
  let ?n = "n + (if c = btick then 1 else 0)"
  have e: "E (if c = btick then \<not> odd n else odd n) l = E (odd ?n) l"
    by simp
  have shift: "\<And>j. (if ((c # l) ! Suc j = CHR ''{'' \<or> (c # l) ! Suc j = CHR ''}'')
                          \<and> \<not> odd (n + count_list (take (Suc j) (c # l)) btick)
                       then replicate k bslash @ [(c # l) ! Suc j] else [(c # l) ! Suc j])
      = (if (l ! j = CHR ''{'' \<or> l ! j = CHR ''}'') \<and> \<not> odd (?n + count_list (take j l) btick)
         then replicate k bslash @ [l ! j] else [l ! j])"
    by auto
  have head: "(if ((c # l) ! 0 = CHR ''{'' \<or> (c # l) ! 0 = CHR ''}'')
                  \<and> \<not> odd (n + count_list (take 0 (c # l)) btick)
               then replicate k bslash @ [(c # l) ! 0] else [(c # l) ! 0])
      = (if (c = CHR ''{'' \<or> c = CHR ''}'') \<and> \<not> odd n then replicate k bslash @ [c] else [c])"
    by auto
  show ?case
    unfolding step e Cons.IH [of ?n]
    by (simp only: length_Cons map_upt_Suc list.map concat.simps shift head)
qed

lemma escape_chars_by_position:
  "fst (escape_chars (odd n) l) =
     concat (map (\<lambda>j. if (l ! j = CHR ''{'' \<or> l ! j = CHR ''}'')
                          \<and> \<not> odd (n + count_list (take j l) btick)
                       then replicate 1 bslash @ [l ! j] else [l ! j]) [0..<length l])"
  by (rule chars_by_position [where E = "\<lambda>q l. fst (escape_chars q l)"])
     (simp_all add: fst_escape_chars_Cons)

lemma escape_chars_twice_by_position:
  "fst (escape_chars (odd n) (fst (escape_chars (odd n) l))) =
     concat (map (\<lambda>j. if (l ! j = CHR ''{'' \<or> l ! j = CHR ''}'')
                          \<and> \<not> odd (n + count_list (take j l) btick)
                       then replicate 2 bslash @ [l ! j] else [l ! j]) [0..<length l])"
  by (rule chars_by_position [where E = "\<lambda>q l. fst (escape_chars q (fst (escape_chars q l)))"])
     (simp_all add: fst_escape_chars_twice_Cons numeral_2_eq_2)

lemma in_fenced_Nil: "\<not> in_fenced []"
  by (simp add: in_fenced_def)

lemma in_fenced_snoc:
  "in_fenced (pre @ [l]) = (if is_fence l then \<not> in_fenced pre else in_fenced pre)"
  by (simp add: in_fenced_def)

lemma prose_lines_Nil: "prose_lines [] = []"
  by (simp add: prose_lines_def)

lemma prose_lines_snoc:
  "prose_lines (pre @ [l]) =
     prose_lines pre @ (if \<not> is_fence l \<and> \<not> in_fenced pre then [l] else [])"
proof -
  let ?P = "\<lambda>ls i. \<not> is_fence (ls ! i) \<and> \<not> in_fenced (take i ls)"
  have f: "filter (?P (pre @ [l])) [0..<length pre] = filter (?P pre) [0..<length pre]"
    by (rule filter_cong) (auto simp: nth_append)
  have m: "map (\<lambda>i. (pre @ [l]) ! i) (filter (?P pre) [0..<length pre])
      = map (\<lambda>i. pre ! i) (filter (?P pre) [0..<length pre])"
    by (rule map_cong) (auto simp: nth_append)
  have u: "[0..<length (pre @ [l])] = [0..<length pre] @ [length pre]"
    by simp
  have "prose_lines (pre @ [l])
      = map (\<lambda>i. (pre @ [l]) ! i) (filter (?P pre) [0..<length pre])
        @ map (\<lambda>i. (pre @ [l]) ! i) (filter (?P (pre @ [l])) [length pre])"
    unfolding prose_lines_def u filter_append map_append f ..
  also have "\<dots> = prose_lines pre @ (if \<not> is_fence l \<and> \<not> in_fenced pre then [l] else [])"
    unfolding m by (simp add: prose_lines_def)
  finally show ?thesis .
qed

lemma lines_by_position:
  assumes nil: "\<And>b q. E b q [] = []"
    and step: "\<And>b q l ls. E b q (l # ls) =
        (if is_fence l then l # E (\<not> b) q ls
         else if b then l # E b q ls
         else L q l # E b (q \<noteq> odd (count_list l btick)) ls)"
    and line: "\<And>n l. L (odd n) l =
        concat (map (\<lambda>j. if (l ! j = CHR ''{'' \<or> l ! j = CHR ''}'')
                             \<and> \<not> odd (n + count_list (take j l) btick)
                          then replicate k bslash @ [l ! j] else [l ! j]) [0..<length l])"
  shows "E (in_fenced pre) (odd (count_list (concat (prose_lines pre)) btick)) ls =
     map (\<lambda>i. concat (map (brace_rule k (pre @ ls) (length pre + i))
                         [0..<length ((pre @ ls) ! (length pre + i))]))
       [0..<length ls]"
proof (induction ls arbitrary: pre)
  case Nil
  show ?case by (simp add: nil)
next
  case (Cons l ls)
  let ?n = "count_list (concat (prose_lines pre)) btick"
  let ?row = "\<lambda>pre ls i. concat (map (brace_rule k (pre @ ls) (length pre + i))
                         [0..<length ((pre @ ls) ! (length pre + i))])"
  have tail: "map (\<lambda>i. ?row pre (l # ls) (Suc i)) [0..<length ls]
      = map (?row (pre @ [l]) ls) [0..<length ls]"
    by simp
  have rhs: "map (?row pre (l # ls)) [0..<length (l # ls)]
      = ?row pre (l # ls) 0 # map (?row (pre @ [l]) ls) [0..<length ls]"
    unfolding tail [symmetric] by (simp only: length_Cons map_upt_Suc)
  have row0: "?row pre (l # ls) 0 = concat (map (brace_rule k (pre @ l # ls) (length pre)) [0..<length l])"
    by simp
  show ?case
  proof (cases "is_fence l \<or> in_fenced pre")
    case True
    have "brace_rule k (pre @ l # ls) (length pre) = (\<lambda>j. [l ! j])"
      using True by (intro ext) (auto simp: brace_rule_def Let_def)
    then have r: "?row pre (l # ls) 0 = l"
      unfolding row0 by (simp only: concat_singletons)
    have p: "prose_lines (pre @ [l]) = prose_lines pre"
      using True by (auto simp: prose_lines_snoc)
    show ?thesis
      unfolding rhs r step
      using True Cons.IH [of "pre @ [l]"] by (auto simp: in_fenced_snoc p)
  next
    case False
    have "brace_rule k (pre @ l # ls) (length pre) =
        (\<lambda>j. if (l ! j = CHR ''{'' \<or> l ! j = CHR ''}'') \<and> \<not> odd (?n + count_list (take j l) btick)
             then replicate k bslash @ [l ! j] else [l ! j])"
      using False by (intro ext) (simp add: brace_rule_def Let_def in_inline_def)
    then have r: "?row pre (l # ls) 0 = L (odd ?n) l"
      unfolding row0 line by simp
    have p: "prose_lines (pre @ [l]) = prose_lines pre @ [l]"
      using False by (simp add: prose_lines_snoc)
    have q: "(odd ?n \<noteq> odd (count_list l btick))
        = odd (count_list (concat (prose_lines (pre @ [l]))) btick)"
      unfolding p by simp
    show ?thesis
      unfolding rhs r step q
      using False Cons.IH [of "pre @ [l]"] by (simp add: in_fenced_snoc)
  qed
qed

lemma escape_chars_ticks_count:
  "count_list (fst (escape_chars q l)) btick = count_list l btick"
proof (induction l arbitrary: q)
  case Nil
  show ?case by simp
next
  case (Cons c l)
  show ?case
    using Cons [of q] Cons [of "\<not> q"]
    by (cases q; simp add: fst_escape_chars_Cons)
qed

lemma escape_lines_twice_Cons:
  "escape_lines b q (escape_lines b q (l # ls)) =
     (if is_fence l then l # escape_lines (\<not> b) q (escape_lines (\<not> b) q ls)
      else if b then l # escape_lines b q (escape_lines b q ls)
      else fst (escape_chars q (fst (escape_chars q l)))
           # escape_lines b (q \<noteq> odd (count_list l btick))
               (escape_lines b (q \<noteq> odd (count_list l btick)) ls))"
  by (simp add: escape_lines_Cons escape_chars_fence snd_escape_chars escape_chars_ticks_count)

lemma escape_lines_by_position:
  "escape_lines False False ls = with_backslashes 1 ls"
proof -
  have "escape_lines (in_fenced []) (odd (count_list (concat (prose_lines [])) btick)) ls =
     map (\<lambda>i. concat (map (brace_rule 1 ([] @ ls) (length ([] :: string list) + i))
                         [0..<length (([] @ ls) ! (length ([] :: string list) + i))]))
       [0..<length ls]"
    by (rule lines_by_position [where L = "\<lambda>q l. fst (escape_chars q l)"])
       (simp_all add: escape_lines_Cons snd_escape_chars escape_chars_by_position)
  then show ?thesis
    by (simp add: in_fenced_Nil prose_lines_Nil with_backslashes_def)
qed

lemma escape_lines_twice_by_position:
  "escape_lines False False (escape_lines False False ls) = with_backslashes 2 ls"
proof -
  have "escape_lines (in_fenced []) (odd (count_list (concat (prose_lines [])) btick))
          (escape_lines (in_fenced []) (odd (count_list (concat (prose_lines [])) btick)) ls) =
     map (\<lambda>i. concat (map (brace_rule 2 ([] @ ls) (length ([] :: string list) + i))
                         [0..<length (([] @ ls) ! (length ([] :: string list) + i))]))
       [0..<length ls]"
    by (rule lines_by_position
          [where E = "\<lambda>b q ls. escape_lines b q (escape_lines b q ls)"
             and L = "\<lambda>q l. fst (escape_chars q (fst (escape_chars q l)))"])
       (simp_all add: escape_lines_twice_Cons escape_chars_twice_by_position)
  then show ?thesis
    by (simp add: in_fenced_Nil prose_lines_Nil with_backslashes_def)
qed

lemma escape_braces_by_position:
  "escape_braces_outside_code t = join_nl (with_backslashes 1 (split_nl t))"
  by (simp add: escape_braces_outside_code_def escape_lines_by_position)

lemma escape_braces_twice_by_position:
  "escape_braces_outside_code (escape_braces_outside_code t)
     = join_nl (with_backslashes 2 (split_nl t))"
  by (simp add: escape_braces_twice escape_lines_twice_by_position)


lemma escape_chars_no_brace:
  "CHR ''{'' \<notin> set l \<Longrightarrow> CHR ''}'' \<notin> set l \<Longrightarrow> fst (escape_chars q l) = l"
proof (induction l arbitrary: q)
  case Nil
  show ?case by simp
next
  case (Cons c l)
  show ?case
    using Cons.prems Cons.IH [of q] Cons.IH [of "\<not> q"]
    by (cases q; auto simp: fst_escape_chars_Cons)
qed

lemma escape_lines_no_brace:
  "\<forall>l\<in>set ls. CHR ''{'' \<notin> set l \<and> CHR ''}'' \<notin> set l \<Longrightarrow> escape_lines b q ls = ls"
proof (induction ls arbitrary: b q)
  case Nil
  show ?case by simp
next
  case (Cons l ls)
  then show ?case
    by (simp add: escape_lines_Cons escape_chars_no_brace)
qed

lemma split_nl_subset: "l \<in> set (split_nl t) \<Longrightarrow> set l \<subseteq> set t"
proof (induction t arbitrary: l)
  case Nil
  then show ?case by simp
next
  case (Cons c t)
  obtain k ks where s: "split_nl t = k # ks"
    using split_nl_not_Nil [of t] by (cases "split_nl t") auto
  show ?case
    using Cons.prems Cons.IH [of k] Cons.IH [of l] s by (auto split: if_splits)
qed

lemma escape_braces_no_brace:
  assumes "CHR ''{'' \<notin> set t" "CHR ''}'' \<notin> set t"
  shows "escape_braces_outside_code t = t"
proof -
  have "\<forall>l\<in>set (split_nl t). CHR ''{'' \<notin> set l \<and> CHR ''}'' \<notin> set l"
    using assms split_nl_subset by blast
  then show ?thesis
    by (simp add: escape_braces_outside_code_def escape_lines_no_brace join_split_nl)
qed

lemma m_lbrace_None: "CHR ''{'' \<notin> set t \<Longrightarrow> m_lbrace p t = None"
  by (cases t) (auto simp: m_lbrace_def)

lemma m_rbrace_None: "CHR ''}'' \<notin> set t \<Longrightarrow> m_rbrace p t = None"
  by (cases t) (auto simp: m_rbrace_def)

lemma fix_mdx_braces_no_brace:
  assumes "CHR ''{'' \<notin> set t" "CHR ''}'' \<notin> set t"
  shows "fix_mdx_braces t = t"
proof -
  have 1: "re_sub m_lbrace None t = t"
    using assms(1) by (intro re_sub_no_match m_lbrace_None) (auto simp: suffix_def)
  have 2: "re_sub m_rbrace None t = t"
    using assms(2) by (intro re_sub_no_match m_rbrace_None) (auto simp: suffix_def)
  show ?thesis
    by (simp add: fix_mdx_braces_def 1 2)
qed

text \<open>
  C3, as stated, fails: neither pass knows an escaped brace; applied to its own output
  it puts a second backslash before the brace.
\<close>

theorem escaped_brace_escaped_again:
  "escape_braces_outside_code ''{'' = [bslash, CHR ''{'']
   \<and> escape_braces_outside_code (escape_braces_outside_code ''{'') = [bslash, bslash, CHR ''{'']
   \<and> fix_mdx_braces ''{'' = [bslash, CHR ''{'']
   \<and> fix_mdx_braces (fix_mdx_braces ''{'') = [bslash, bslash, CHR ''{'']"
  by code_simp

text \<open>
  C3, amended: the brace-escaping pass is not idempotent; a brace already escaped is
  escaped again. \<open>escape_braces_outside_code\<close> puts one backslash before every brace
  outside code (on a line that is not a fence line, after an even number of fence lines
  and after an even number of backquotes of the prose lines) and changes nothing else;
  applied to its own output it gives the text with two backslashes before each of those
  braces. So a second application leaves its input unchanged exactly when the first
  did; a text without braces is left unchanged by it and by the pass of \<open>fix_mdx.py\<close>.
\<close>

theorem brace_pass_twice:
  "escape_braces_outside_code t = join_nl (with_backslashes 1 (split_nl t))
   \<and> escape_braces_outside_code (escape_braces_outside_code t)
       = join_nl (with_backslashes 2 (split_nl t))
   \<and> ((escape_braces_outside_code (escape_braces_outside_code t) = escape_braces_outside_code t)
      = (escape_braces_outside_code t = t))
   \<and> (CHR ''{'' \<notin> set t \<and> CHR ''}'' \<notin> set t
      \<longrightarrow> escape_braces_outside_code t = t \<and> fix_mdx_braces t = t)"
  using escape_braces_by_position [of t] escape_braces_twice_by_position [of t]
    second_pass_changes_iff_first_did [of t] escape_braces_no_brace [of t]
    fix_mdx_braces_no_brace [of t]
  by blast

theorem brace_pass_twice_witness:
  "escape_braces_outside_code ''{a} `{b}`\<newline>```\<newline>{c}\<newline>```\<newline>}''
     = [bslash] @ ''{a'' @ [bslash] @ ''} `{b}`\<newline>```\<newline>{c}\<newline>```\<newline>'' @ [bslash] @ ''}''
   \<and> escape_braces_outside_code
        (escape_braces_outside_code ''{a} `{b}`\<newline>```\<newline>{c}\<newline>```\<newline>}'')
     = [bslash, bslash] @ ''{a'' @ [bslash, bslash] @ ''} `{b}`\<newline>```\<newline>{c}\<newline>```\<newline>''
       @ [bslash, bslash] @ ''}''
   \<and> escape_braces_outside_code ''see `x`'' = ''see `x`''
   \<and> fix_mdx_braces ''see `x`'' = ''see `x`''"
proof -
  let ?t = "''{a} `{b}`\<newline>```\<newline>{c}\<newline>```\<newline>}''"
  have 1: "join_nl (with_backslashes 1 (split_nl ?t))
      = [bslash] @ ''{a'' @ [bslash] @ ''} `{b}`\<newline>```\<newline>{c}\<newline>```\<newline>'' @ [bslash] @ ''}''"
    by code_simp
  have 2: "join_nl (with_backslashes 2 (split_nl ?t))
      = [bslash, bslash] @ ''{a'' @ [bslash, bslash] @ ''} `{b}`\<newline>```\<newline>{c}\<newline>```\<newline>''
        @ [bslash, bslash] @ ''}''"
    by code_simp
  have a: "escape_braces_outside_code ?t
      = [bslash] @ ''{a'' @ [bslash] @ ''} `{b}`\<newline>```\<newline>{c}\<newline>```\<newline>'' @ [bslash] @ ''}''
    \<and> escape_braces_outside_code (escape_braces_outside_code ?t)
      = [bslash, bslash] @ ''{a'' @ [bslash, bslash] @ ''} `{b}`\<newline>```\<newline>{c}\<newline>```\<newline>''
        @ [bslash, bslash] @ ''}''"
    using brace_pass_twice [of ?t] unfolding 1 2 by blast
  have b: "escape_braces_outside_code ''see `x`'' = ''see `x`'' \<and> fix_mdx_braces ''see `x`'' = ''see `x`''"
    using brace_pass_twice [of "''see `x`''", THEN conjunct2, THEN conjunct2, THEN conjunct2]
    by simp
  show ?thesis
    using a b by blast
qed

end
